theory Spec2Isabelle
  imports Complex_Main
begin

section \<open>Python floats\<close>

text \<open>
  The scorer of \<^verbatim>\<open>backend/app/routes/threats.py\<close> computes with Python floats
  (IEEE 754 binary64). A finite double is modelled by its exact value, a rational number,
  and every arithmetic operation rounds the exact result to the nearest double, ties to
  even. The exponent range is left unbounded: a score is a small multiple of a match
  count, which is at most the length of the content, so neither the subnormal range nor
  overflow is reachable by a Python string (lemma \<open>category_scores_range\<close> below).
\<close>

fun bit_length :: "nat \<Rightarrow> nat" where
  "bit_length n = (if n = 0 then 0 else Suc (bit_length (n div 2)))"

declare bit_length.simps [simp del]

definition pow2 :: "int \<Rightarrow> rat" where
  "pow2 k = (if 0 \<le> k then 2 ^ nat k else 1 / 2 ^ nat (- k))"

definition round_half_even :: "rat \<Rightarrow> int" where
  "round_half_even q =
     (let f = \<lfloor>q\<rfloor>; r = q - of_int f
      in if r < 1 / 2 then f else if 1 / 2 < r then f + 1 else if even f then f else f + 1)"

text \<open>The exponent \<open>e\<close> with \<open>2 ^ e \<le> x < 2 ^ (e + 1)\<close>, for positive \<open>x\<close>.\<close>

definition binade :: "rat \<Rightarrow> int" where
  "binade x =
     (if 1 \<le> x then int (bit_length (nat \<lfloor>x\<rfloor>)) - 1
      else - int (bit_length (nat \<lceil>1 / x\<rceil> - 1)))"

text \<open>Rounding to 53 significant bits.\<close>

definition round_pos :: "rat \<Rightarrow> rat" where
  "round_pos a =
     (let e = binade a in of_int (round_half_even (a * pow2 (52 - e))) * pow2 (e - 52))"

definition round_double :: "rat \<Rightarrow> rat" where
  "round_double x =
     (if x = 0 then 0 else if 0 < x then round_pos x else - round_pos (- x))"

text \<open>
  A decimal literal of the source denotes the nearest double. The literal is given as a
  fraction: \<open>float_lit 3 10\<close> is \<^verbatim>\<open>0.3\<close>, \<open>float_lit 21 100\<close> is \<^verbatim>\<open>0.21\<close> and
  \<open>float_lit 10 10\<close> is \<^verbatim>\<open>1.0\<close>.
\<close>

definition float_lit :: "int \<Rightarrow> int \<Rightarrow> rat" where
  "float_lit num den = round_double (of_int num / of_int den)"

text \<open>The conversion of a Python \<^verbatim>\<open>int\<close> operand to \<^verbatim>\<open>float\<close>.\<close>

definition float_of_nat :: "nat \<Rightarrow> rat" where
  "float_of_nat n = round_double (of_nat n)"

definition float_mul :: "rat \<Rightarrow> rat \<Rightarrow> rat" where
  "float_mul a b = round_double (a * b)"

definition float_add :: "rat \<Rightarrow> rat \<Rightarrow> rat" where
  "float_add a b = round_double (a + b)"

section \<open>Strings and the patterns of the registry\<close>

text \<open>
  A content string is a list of code points below 256 (the type \<^typ>\<open>char\<close>, read as
  Latin-1). On this range \<^verbatim>\<open>str.lower\<close> maps character by character, and the
  word characters of \<^verbatim>\<open>\w\<close> are the alphanumeric ones and the underscore.
\<close>

definition lower_char :: "char \<Rightarrow> char" where
  "lower_char c =
     (let n = (of_char c :: nat)
      in if (65 \<le> n \<and> n \<le> 90) \<or> (192 \<le> n \<and> n \<le> 214) \<or> (216 \<le> n \<and> n \<le> 222)
         then char_of (n + 32) else c)"

definition lower :: "string \<Rightarrow> string" where
  "lower s = map lower_char s"

definition is_word_char :: "char \<Rightarrow> bool" where
  "is_word_char c =
     (let n = (of_char c :: nat)
      in (48 \<le> n \<and> n \<le> 57) \<or> (65 \<le> n \<and> n \<le> 90) \<or> n = 95 \<or> (97 \<le> n \<and> n \<le> 122)
         \<or> n = 170 \<or> n = 178 \<or> n = 179 \<or> n = 181 \<or> n = 185 \<or> n = 186
         \<or> (188 \<le> n \<and> n \<le> 190) \<or> (192 \<le> n \<and> n \<le> 214) \<or> (216 \<le> n \<and> n \<le> 246)
         \<or> (248 \<le> n \<and> n \<le> 255))"

text \<open>
  Every pattern of the registry has the shape \<^verbatim>\<open>\b(w1|w2|...|wn)\b\<close> with non-empty
  literal alternatives; a pattern is the list of its alternatives. \<^verbatim>\<open>\b\<close> holds
  between two positions exactly when one side is a word character and the other is not
  (the two ends of the string count as non-word).
\<close>

type_synonym pattern = "string list"

definition is_word_opt :: "char option \<Rightarrow> bool" where
  "is_word_opt x = (case x of None \<Rightarrow> False | Some c \<Rightarrow> is_word_char c)"

definition word_boundary :: "char option \<Rightarrow> char option \<Rightarrow> bool" where
  "word_boundary before after = (is_word_opt before \<noteq> is_word_opt after)"

definition next_char :: "string \<Rightarrow> char option" where
  "next_char s = (case s of [] \<Rightarrow> None | c # _ \<Rightarrow> Some c)"

text \<open>
  The alternatives are tried in order; one succeeds when it is a prefix of the rest of
  the string and the closing \<^verbatim>\<open>\b\<close> holds behind it, otherwise the matcher backtracks
  to the next alternative.
\<close>

fun match_alternatives :: "string list \<Rightarrow> char option \<Rightarrow> string \<Rightarrow> string option" where
  "match_alternatives [] prev s = None"
| "match_alternatives (w # ws) prev s =
     (if take (length w) s = w
         \<and> word_boundary (if w = [] then prev else Some (last w)) (next_char (drop (length w) s))
      then Some w
      else match_alternatives ws prev s)"

definition match_here :: "pattern \<Rightarrow> char option \<Rightarrow> string \<Rightarrow> string option" where
  "match_here p prev s =
     (if word_boundary prev (next_char s) then match_alternatives p prev s else None)"

text \<open>
  \<^verbatim>\<open>re.findall\<close>: scan from the left; where the pattern matches, record the match and go
  on behind it, otherwise go on one character further. \<open>prev\<close> is the character before
  the current position.
\<close>

function re_findall_from :: "pattern \<Rightarrow> char option \<Rightarrow> string \<Rightarrow> string list" where
  "re_findall_from p prev [] = []"
| "re_findall_from p prev (c # cs) =
     (case match_here p prev (c # cs) of
        None \<Rightarrow> re_findall_from p (Some c) cs
      | Some w \<Rightarrow>
          w # re_findall_from p (Some ((c # cs) ! (length w - 1))) (drop (length w - 1) cs))"
  by pat_completeness auto
termination
  by (relation "measure (\<lambda>(p, prev, s). length s)") auto

definition re_findall :: "pattern \<Rightarrow> string \<Rightarrow> string list" where
  "re_findall p s = re_findall_from p None s"

section \<open>The analysis of a content string\<close>

text \<open>
  The function \<^verbatim>\<open>analyze_threat_content\<close> (lines 17 to 91 of the source file) and the
  model \<^verbatim>\<open>ThreatAnalysisResult\<close> of \<^verbatim>\<open>backend/app/models/threats.py\<close>. The two loops of
  the function are the recursive functions \<open>score_patterns\<close> and \<open>scan_categories\<close>; the
  blocks behind the loops that compute the level, the detection flag and the
  recommendations from \<^verbatim>\<open>max_confidence\<close> are \<open>level_of\<close>, \<open>detected_of\<close> and
  \<open>recommendations_of\<close>.
\<close>

record ThreatAnalysisResult =
  threat_detected :: bool
  threat_type :: string
  threat_level :: string
  confidence_score :: rat
  explanation :: string
  recommended_actions :: "string list"

text \<open>The dictionary \<^verbatim>\<open>threat_patterns\<close>, in its insertion order.\<close>

definition threat_patterns :: "(string \<times> pattern list) list" where
  "threat_patterns =
     [(''cyberbullying'',
        [[''stupid'', ''idiot'', ''loser'', ''ugly'', ''fat'', ''worthless'', ''kill yourself'',
          ''die''],
         [''hate you'', ''disgusting'', ''pathetic'', ''freak'']]),
      (''harassment'',
        [[''follow you'', ''watching you'', ''know where you live'', ''find you''],
         [''won'' @ [CHR 0x27] @ ''t leave you alone'', ''obsessed'', ''stalking'']]),
      (''inappropriate_content'',
        [[''send nudes'', ''naked'', ''sexy pics'', ''inappropriate''],
         [''sexual'', ''explicit'', ''adult content'']]),
      (''phishing'',
        [[''click here'', ''urgent'', ''verify account'', ''suspended''],
         [''winner'', ''congratulations'', ''claim prize'', ''free money'']])]"

text \<open>The inner loop: \<^verbatim>\<open>threat_score += matches * 0.3\<close> for each pattern.\<close>

fun score_patterns :: "string \<Rightarrow> pattern list \<Rightarrow> rat \<Rightarrow> rat" where
  "score_patterns content_lower [] threat_score = threat_score"
| "score_patterns content_lower (p # ps) threat_score =
     score_patterns content_lower ps
       (float_add threat_score
          (float_mul (float_of_nat (length (re_findall p content_lower))) (float_lit 3 10)))"

record scan_state =
  detected_threats :: "string list"
  max_confidence :: rat
  primary_threat :: string

text \<open>The outer loop over the categories.\<close>

fun scan_categories :: "string \<Rightarrow> (string \<times> pattern list) list \<Rightarrow> scan_state \<Rightarrow> scan_state" where
  "scan_categories content_lower [] st = st"
| "scan_categories content_lower ((name, patterns) # rest) st =
     (let threat_score = score_patterns content_lower patterns 0
      in scan_categories content_lower rest
           (if 0 < threat_score
            then (if max_confidence st < threat_score
                  then st\<lparr>detected_threats := detected_threats st @ [name],
                          max_confidence := threat_score, primary_threat := name\<rparr>
                  else st\<lparr>detected_threats := detected_threats st @ [name]\<rparr>)
            else st))"

text \<open>The three variables of the scan before the loop starts.\<close>

definition initial_state :: scan_state where
  "initial_state = \<lparr>detected_threats = [], max_confidence = 0, primary_threat = ''other''\<rparr>"

definition level_of :: "rat \<Rightarrow> string" where
  "level_of m =
     (if float_lit 8 10 \<le> m then ''critical''
      else if float_lit 6 10 \<le> m then ''high''
      else if float_lit 3 10 \<le> m then ''medium''
      else ''low'')"

definition detected_of :: "rat \<Rightarrow> bool" where
  "detected_of m = (float_lit 2 10 < m)"

definition recommendations_of :: "rat \<Rightarrow> string \<Rightarrow> string list" where
  "recommendations_of m level =
     (if float_lit 5 10 < m
      then [''Document this content as evidence'', ''Report to platform administrators'',
            ''Consider blocking the sender'']
           @ (if level \<in> set [''high'', ''critical'']
              then [''Contact emergency services if feeling unsafe'',
                    ''Inform trusted contacts about the situation'']
              else [])
      else [])"

definition analyze_threat_content :: "string \<Rightarrow> ThreatAnalysisResult" where
  "analyze_threat_content content =
     (let content_lower = lower content;
          st = scan_categories content_lower threat_patterns initial_state;
          m = max_confidence st;
          level = level_of m
      in \<lparr>threat_detected = detected_of m,
          threat_type = primary_threat st,
          threat_level = level,
          confidence_score = min m (float_lit 10 10),
          explanation = ''Detected potential '' @ primary_threat st @ '' with '' @ level
                          @ '' severity level'',
          recommended_actions = recommendations_of m level\<rparr>)"

section \<open>The route \<^verbatim>\<open>POST /threats/analyze\<close>\<close>

text \<open>
  A row returned by the data store is a dictionary from column names to values. The
  notification that the route inserts for a high-priority threat is the dictionary
  \<^verbatim>\<open>notification_data\<close>; its \<^verbatim>\<open>metadata\<close> holds the id of the stored detection.
\<close>

type_synonym row = "string \<rightharpoonup> string"

record notification =
  user_id :: string
  notification_type :: string
  title :: string
  message :: string
  priority :: string
  metadata :: "(string \<times> string) list"
  created_at :: string

datatype py_error = KeyError

datatype http_error = HTTP_500_INTERNAL_SERVER_ERROR

text \<open>
  \<^verbatim>\<open>str.title\<close> on ASCII strings: the first letter of every run of letters in upper
  case, the other letters in lower case. The route applies it to the level only, and only
  behind the test that the level is \<^verbatim>\<open>high\<close> or \<^verbatim>\<open>critical\<close>.
\<close>

definition is_ascii_letter :: "char \<Rightarrow> bool" where
  "is_ascii_letter c =
     (let n = (of_char c :: nat) in (65 \<le> n \<and> n \<le> 90) \<or> (97 \<le> n \<and> n \<le> 122))"

definition upper_char :: "char \<Rightarrow> char" where
  "upper_char c =
     (let n = (of_char c :: nat) in if 97 \<le> n \<and> n \<le> 122 then char_of (n - 32) else c)"

fun title_from :: "bool \<Rightarrow> string \<Rightarrow> string" where
  "title_from in_word [] = []"
| "title_from in_word (c # cs) =
     (if is_ascii_letter c
      then (if in_word then lower_char c else upper_char c) # title_from True cs
      else c # title_from False cs)"

definition str_title :: "string \<Rightarrow> string" where
  "str_title s = title_from False s"

text \<open>
  The decision behind the insert of the detection: \<open>data\<close> is \<^verbatim>\<open>result.data\<close>, the rows
  the data store returned, and \<open>now\<close> the ISO time stamp of the clock. A missing
  \<^verbatim>\<open>id\<close> in the first row raises \<^verbatim>\<open>KeyError\<close>.
\<close>

definition threat_notification ::
  "ThreatAnalysisResult \<Rightarrow> string \<Rightarrow> string \<Rightarrow> row list \<Rightarrow> py_error + notification option" where
  "threat_notification analysis_result current_user_id now data =
     (if data \<noteq> [] \<and> threat_detected analysis_result
      then (if threat_level analysis_result \<in> set [''high'', ''critical'']
            then (case (hd data) ''id'' of
                    None \<Rightarrow> Inl KeyError
                  | Some threat_id \<Rightarrow>
                      Inr (Some
                        \<lparr>user_id = current_user_id,
                         notification_type = ''threat_alert'',
                         title = str_title (threat_level analysis_result) @ '' Threat Detected'',
                         message = ''We detected a '' @ threat_level analysis_result @ '' level ''
                                     @ threat_type analysis_result @ '' threat'',
                         priority = (if threat_level analysis_result = ''critical''
                                     then ''urgent'' else ''high''),
                         metadata = [(''threat_id'', threat_id)],
                         created_at = now\<rparr>))
            else Inr None)
      else Inr None)"

text \<open>
  The route itself. The two calls of the data store are its environment: \<open>inserted\<close> is
  what the insert of the detection returns (\<open>None\<close> when it raises), \<open>notified\<close> tells
  whether the insert of the notification returns. Every exception ends in the handler
  that answers with status 500.
\<close>

definition analyze_threat ::
  "string \<Rightarrow> string \<Rightarrow> string \<Rightarrow> row list option \<Rightarrow> bool
     \<Rightarrow> http_error + (ThreatAnalysisResult \<times> notification option)" where
  "analyze_threat content_analyzed current_user_id now inserted notified =
     (let analysis_result = analyze_threat_content content_analyzed
      in case inserted of
           None \<Rightarrow> Inl HTTP_500_INTERNAL_SERVER_ERROR
         | Some data \<Rightarrow>
             (case threat_notification analysis_result current_user_id now data of
                Inl e \<Rightarrow> Inl HTTP_500_INTERNAL_SERVER_ERROR
              | Inr None \<Rightarrow> Inr (analysis_result, None)
              | Inr (Some n) \<Rightarrow>
                  if notified then Inr (analysis_result, Some n)
                  else Inl HTTP_500_INTERNAL_SERVER_ERROR))"

section \<open>Notions of the specification\<close>

text \<open>
  The number of matches of a pattern in the lower-cased content, the weighted sum of a
  category in float arithmetic, the raw scores of the four categories in the order of the
  registry, and the maximum raw score (at least 0, the initial \<^verbatim>\<open>max_confidence\<close>).
\<close>

definition match_count :: "pattern \<Rightarrow> string \<Rightarrow> nat" where
  "match_count p content = length (re_findall p (lower content))"

definition weighted_sum :: "string \<Rightarrow> pattern list \<Rightarrow> rat" where
  "weighted_sum content pats =
     foldl float_add 0
       (map (\<lambda>p. float_mul (float_of_nat (match_count p content)) (float_lit 3 10)) pats)"

definition category_scores :: "string \<Rightarrow> (string \<times> rat) list" where
  "category_scores content =
     map (\<lambda>(name, patterns). (name, score_patterns (lower content) patterns 0)) threat_patterns"

definition max_score :: "(string \<times> rat) list \<Rightarrow> rat" where
  "max_score scores = Max (set (0 # map snd scores))"

text \<open>Auxiliary abbreviations of the proofs: one summand, and the scores of any registry.\<close>

definition term_score :: "string \<Rightarrow> pattern \<Rightarrow> rat" where
  "term_score cl p = float_mul (float_of_nat (length (re_findall p cl))) (float_lit 3 10)"

definition scores_of :: "string \<Rightarrow> (string \<times> pattern list) list \<Rightarrow> (string \<times> rat) list" where
  "scores_of cl cats = map (\<lambda>(name, patterns). (name, score_patterns cl patterns 0)) cats"

text \<open>
  Notions of the proofs about appended text: a word occurs in another one as a contiguous
  part; a pattern is separated when its alternatives are not empty and none occurs in
  another one; an alternative matches at a position when it is a prefix of the rest of the
  string and the closing \<^verbatim>\<open>\b\<close> holds behind it (the test of \<open>match_alternatives\<close>).
\<close>

fun occurs_in :: "'a list \<Rightarrow> 'a list \<Rightarrow> bool" where
  "occurs_in v [] = (v = [])"
| "occurs_in v (x # xs) = (take (length v) (x # xs) = v \<or> occurs_in v xs)"

definition separated :: "pattern \<Rightarrow> bool" where
  "separated p = (\<forall>u\<in>set p. u \<noteq> [] \<and> (\<forall>v\<in>set p. occurs_in v u \<longrightarrow> v = u))"

definition alternative_matches :: "string \<Rightarrow> char option \<Rightarrow> string \<Rightarrow> bool" where
  "alternative_matches w prev s =
     (take (length w) s = w
      \<and> word_boundary (if w = [] then prev else Some (last w)) (next_char (drop (length w) s)))"

section \<open>Rounding is monotone\<close>

lemma pow2_powi: "pow2 k = 2 powi k"
  by (simp add: pow2_def power_int_def power_inverse inverse_eq_divide power_one_over)

lemma pow2_pos: "0 < pow2 k"
  by (simp add: pow2_powi)

lemma pow2_add: "pow2 (a + b) = pow2 a * pow2 b"
  by (simp add: pow2_powi power_int_add)

lemma pow2_mono: "a \<le> b \<Longrightarrow> pow2 a \<le> pow2 b"
  by (simp add: pow2_powi power_int_increasing)

lemma pow2_nat: "pow2 (int n) = 2 ^ n"
  by (simp add: pow2_powi)

lemma pow2_neg_nat: "pow2 (- int n) = 1 / 2 ^ n"
  by (simp add: pow2_powi power_int_minus inverse_eq_divide)

lemma bit_length_upper: "n < 2 ^ bit_length n"
proof (induction n rule: bit_length.induct)
  case (1 n)
  show ?case
  proof (cases "n = 0")
    case True
    then show ?thesis by (simp add: bit_length.simps)
  next
    case False
    with 1 have "n div 2 < 2 ^ bit_length (n div 2)" by simp
    then have "n < 2 * 2 ^ bit_length (n div 2)" by linarith
    with False show ?thesis by (simp add: bit_length.simps [of n])
  qed
qed

lemma bit_length_lower: "0 < n \<Longrightarrow> 2 ^ (bit_length n - 1) \<le> n"
proof (induction n rule: bit_length.induct)
  case (1 n)
  then have n: "n \<noteq> 0" by simp
  show ?case
  proof (cases "n div 2 = 0")
    case True
    with n show ?thesis by (simp add: bit_length.simps [of n] bit_length.simps [of 0])
  next
    case False
    with 1 n have ih: "2 ^ (bit_length (n div 2) - 1) \<le> n div 2" by simp
    from False have "0 < bit_length (n div 2)" by (simp add: bit_length.simps [of "n div 2"])
    then have "(2::nat) ^ bit_length (n div 2) = 2 * 2 ^ (bit_length (n div 2) - 1)"
      by (cases "bit_length (n div 2)") simp_all
    with ih have "2 ^ bit_length (n div 2) \<le> n" by linarith
    with n show ?thesis by (simp add: bit_length.simps [of n])
  qed
qed

lemma bit_length_pos: "0 < n \<Longrightarrow> 0 < bit_length n"
  by (simp add: bit_length.simps [of n])

lemma binade_lower: assumes "0 < x" shows "pow2 (binade x) \<le> x"
proof (cases "1 \<le> x")
  case True
  define n where "n = nat \<lfloor>x\<rfloor>"
  from True have n: "0 < n" by (simp add: n_def)
  have nx: "of_nat n \<le> x" using True by (simp add: n_def)
  have b: "binade x = int (bit_length n - 1)"
    using True bit_length_pos [OF n] by (simp add: binade_def n_def)
  have "(2::rat) ^ (bit_length n - 1) = of_nat (2 ^ (bit_length n - 1))" by simp
  also have "\<dots> \<le> of_nat n" using bit_length_lower [OF n] by (simp only: of_nat_le_iff)
  finally have "(2::rat) ^ (bit_length n - 1) \<le> x" using nx by (rule order_trans)
  moreover have "pow2 (binade x) = 2 ^ (bit_length n - 1)" by (simp only: b pow2_nat)
  ultimately show ?thesis by (simp only:)
next
  case False
  define k where "k = nat \<lceil>1 / x\<rceil> - 1"
  from False assms have y: "1 < 1 / x" by simp
  then have c: "2 \<le> \<lceil>1 / x\<rceil>" by linarith
  have b: "binade x = - int (bit_length k)" using False by (simp add: binade_def k_def)
  have kk: "\<lceil>1 / x\<rceil> = int (k + 1)" unfolding k_def using c by linarith
  have "k + 1 \<le> 2 ^ bit_length k" using bit_length_upper [of k] by simp
  then have "(of_nat (k + 1) :: rat) \<le> of_nat (2 ^ bit_length k)" by (simp only: of_nat_le_iff)
  moreover have "1 / x \<le> of_int \<lceil>1 / x\<rceil>" by linarith
  ultimately have "1 / x \<le> 2 ^ bit_length k" unfolding kk by simp
  with assms have "1 / 2 ^ bit_length k \<le> x" by (simp add: field_simps)
  then show ?thesis by (simp only: b pow2_neg_nat)
qed

lemma binade_upper: assumes "0 < x" shows "x < pow2 (binade x + 1)"
proof (cases "1 \<le> x")
  case True
  define n where "n = nat \<lfloor>x\<rfloor>"
  from True have n: "0 < n" by (simp add: n_def)
  have b: "binade x + 1 = int (bit_length n)"
    using True by (simp add: binade_def n_def)
  have nn: "\<lfloor>x\<rfloor> + 1 = int (n + 1)" unfolding n_def using True by simp
  have "n + 1 \<le> 2 ^ bit_length n" using bit_length_upper [of n] by simp
  then have "(of_nat (n + 1) :: rat) \<le> of_nat (2 ^ bit_length n)" by (simp only: of_nat_le_iff)
  moreover have "x < of_int (\<lfloor>x\<rfloor> + 1)" by linarith
  ultimately have "x < of_nat (2 ^ bit_length n)" unfolding nn by simp
  moreover have "pow2 (binade x + 1) = of_nat (2 ^ bit_length n)" by (simp only: b pow2_nat of_nat_power of_nat_numeral)
  ultimately show ?thesis by (simp only:)
next
  case False
  define k where "k = nat \<lceil>1 / x\<rceil> - 1"
  from False assms have y: "1 < 1 / x" by simp
  then have c: "2 \<le> \<lceil>1 / x\<rceil>" by linarith
  then have k: "0 < k" by (simp add: k_def)
  have b: "binade x + 1 = - int (bit_length k - 1)"
    using False bit_length_pos [OF k] by (simp add: binade_def k_def)
  have "(2::rat) ^ (bit_length k - 1) = of_nat (2 ^ (bit_length k - 1))" by simp
  also have "\<dots> \<le> of_nat k" using bit_length_lower [OF k] by (simp only: of_nat_le_iff)
  finally have "(2::rat) ^ (bit_length k - 1) \<le> of_nat k" .
  moreover have "of_nat k = (of_int (\<lceil>1 / x\<rceil> - 1) :: rat)"
  proof -
    have "int k = \<lceil>1 / x\<rceil> - 1" unfolding k_def using c by linarith
    then show ?thesis by (metis of_int_of_nat_eq)
  qed
  moreover have "of_int (\<lceil>1 / x\<rceil> - 1) < 1 / x" by linarith
  ultimately have "2 ^ (bit_length k - 1) < 1 / x" by linarith
  with assms have "x < 1 / 2 ^ (bit_length k - 1)" by (simp add: field_simps)
  then show ?thesis by (simp only: b pow2_neg_nat)
qed

lemma rhe_floor_le: "\<lfloor>q\<rfloor> \<le> round_half_even q"
  by (simp add: round_half_even_def Let_def)

lemma rhe_le_floor: "round_half_even q \<le> \<lfloor>q\<rfloor> + 1"
  by (simp add: round_half_even_def Let_def)

lemma rhe_of_int: "round_half_even (of_int n) = n"
  by (simp add: round_half_even_def Let_def)

lemma rhe_mono: assumes "q \<le> q'" shows "round_half_even q \<le> round_half_even q'"
proof (cases "\<lfloor>q\<rfloor> = \<lfloor>q'\<rfloor>")
  case True
  with assms show ?thesis by (auto simp: round_half_even_def Let_def)
next
  case False
  with assms have "\<lfloor>q\<rfloor> + 1 \<le> \<lfloor>q'\<rfloor>" using floor_mono [of q q'] by linarith
  with rhe_le_floor [of q] rhe_floor_le [of q'] show ?thesis by linarith
qed

lemma rhe_ge_int: "of_int n \<le> q \<Longrightarrow> n \<le> round_half_even q"
  using rhe_mono [of "of_int n" q] by (simp add: rhe_of_int)

lemma rhe_le_int: "q \<le> of_int n \<Longrightarrow> round_half_even q \<le> n"
  using rhe_mono [of q "of_int n"] by (simp add: rhe_of_int)

lemma scaled_lower: assumes "0 < x" shows "2 ^ 52 \<le> x * pow2 (52 - binade x)"
proof -
  have "pow2 (binade x) * pow2 (52 - binade x) \<le> x * pow2 (52 - binade x)"
    using binade_lower [OF assms] pow2_pos [of "52 - binade x"] by (simp only: mult_le_cancel_right_pos)
  moreover have "pow2 (binade x) * pow2 (52 - binade x) = pow2 52"
    by (simp add: pow2_add [symmetric])
  moreover have "pow2 52 = 2 ^ 52" using pow2_nat [of 52] by simp
  ultimately show ?thesis by simp
qed

lemma scaled_upper: assumes "0 < x" shows "x * pow2 (52 - binade x) < 2 ^ 53"
proof -
  have "x * pow2 (52 - binade x) < pow2 (binade x + 1) * pow2 (52 - binade x)"
    using binade_upper [OF assms] pow2_pos [of "52 - binade x"] by (simp only: mult_less_cancel_right_pos)
  moreover have "pow2 (binade x + 1) * pow2 (52 - binade x) = pow2 53"
    by (simp add: pow2_add [symmetric])
  moreover have "pow2 53 = 2 ^ 53" using pow2_nat [of 53] by simp
  ultimately show ?thesis by simp
qed

lemma round_pos_lower: assumes "0 < x" shows "pow2 (binade x) \<le> round_pos x"
proof -
  have "(2::rat) ^ 52 = of_int (2 ^ 52)" by simp
  with scaled_lower [OF assms] have "of_int (2 ^ 52) \<le> x * pow2 (52 - binade x)" by simp
  then have "2 ^ 52 \<le> round_half_even (x * pow2 (52 - binade x))" by (rule rhe_ge_int)
  then have "(of_int (2 ^ 52) :: rat) \<le> of_int (round_half_even (x * pow2 (52 - binade x)))"
    by (simp only: of_int_le_iff)
  then have "pow2 52 * pow2 (binade x - 52) \<le> round_pos x"
    using pow2_pos [of "binade x - 52"] pow2_nat [of 52]
    by (simp add: round_pos_def Let_def)
  then show ?thesis by (simp add: pow2_add [symmetric])
qed

lemma round_pos_upper: assumes "0 < x" shows "round_pos x \<le> pow2 (binade x + 1)"
proof -
  have "(2::rat) ^ 53 = of_int (2 ^ 53)" by simp
  with scaled_upper [OF assms] have "x * pow2 (52 - binade x) \<le> of_int (2 ^ 53)" by simp
  then have "round_half_even (x * pow2 (52 - binade x)) \<le> 2 ^ 53" by (rule rhe_le_int)
  then have "(of_int (round_half_even (x * pow2 (52 - binade x))) :: rat) \<le> of_int (2 ^ 53)"
    by (simp only: of_int_le_iff)
  then have "round_pos x \<le> pow2 53 * pow2 (binade x - 52)"
    using pow2_pos [of "binade x - 52"] pow2_nat [of 53]
    by (simp add: round_pos_def Let_def)
  moreover have "pow2 53 * pow2 (binade x - 52) = pow2 (binade x + 1)"
    using pow2_add [of 53 "binade x - 52"] by (simp add: algebra_simps)
  ultimately show ?thesis by (simp only:)
qed

lemma round_pos_pos: "0 < x \<Longrightarrow> 0 < round_pos x"
  using round_pos_lower [of x] pow2_pos [of "binade x"] by linarith

lemma binade_mono: assumes "0 < x" "x \<le> y" shows "binade x \<le> binade y"
proof (rule ccontr)
  assume "\<not> binade x \<le> binade y"
  then have "binade y + 1 \<le> binade x" by simp
  then have "pow2 (binade y + 1) \<le> pow2 (binade x)" by (rule pow2_mono)
  moreover have "y < pow2 (binade y + 1)" using assms by (intro binade_upper) simp
  moreover have "pow2 (binade x) \<le> x" using assms by (intro binade_lower)
  ultimately show False using assms by linarith
qed

lemma round_pos_mono: assumes "0 < x" "x \<le> y" shows "round_pos x \<le> round_pos y"
proof (cases "binade x = binade y")
  case True
  have "x * pow2 (52 - binade y) \<le> y * pow2 (52 - binade y)"
    using assms pow2_pos [of "52 - binade y"] by (simp only: mult_le_cancel_right_pos)
  then have "round_half_even (x * pow2 (52 - binade y)) \<le> round_half_even (y * pow2 (52 - binade y))"
    by (rule rhe_mono)
  then have "(of_int (round_half_even (x * pow2 (52 - binade y))) :: rat)
               \<le> of_int (round_half_even (y * pow2 (52 - binade y)))"
    by (simp only: of_int_le_iff)
  then show ?thesis using pow2_pos [of "binade y - 52"] True
    by (simp add: round_pos_def Let_def)
next
  case False
  with binade_mono [OF assms] have "binade x + 1 \<le> binade y" by simp
  then have "pow2 (binade x + 1) \<le> pow2 (binade y)" by (rule pow2_mono)
  moreover have "round_pos x \<le> pow2 (binade x + 1)" using assms by (intro round_pos_upper)
  moreover have "pow2 (binade y) \<le> round_pos y" using assms by (intro round_pos_lower) simp
  ultimately show ?thesis by linarith
qed

lemma round_double_nonneg: "0 \<le> x \<Longrightarrow> 0 \<le> round_double x"
  using round_pos_pos [of x] by (auto simp: round_double_def less_le)

lemma round_double_pos: "0 < x \<Longrightarrow> 0 < round_double x"
  using round_pos_pos [of x] by (simp add: round_double_def)

lemma round_double_mono: assumes "x \<le> y" shows "round_double x \<le> round_double y"
proof -
  consider "0 < x" | "x \<le> 0" "0 \<le> y" | "y < 0" by linarith
  then show ?thesis
  proof cases
    case 1
    with assms round_pos_mono [of x y] show ?thesis by (simp add: round_double_def)
  next
    case 2
    have "round_double x \<le> 0"
      using 2 round_pos_pos [of "- x"] by (auto simp: round_double_def)
    with round_double_nonneg [of y] 2 show ?thesis by linarith
  next
    case 3
    with assms round_pos_mono [of "- y" "- x"] show ?thesis by (simp add: round_double_def)
  qed
qed

section \<open>The literals of the source\<close>

lemma lit_0_2: "float_lit 2 10 = 3602879701896397 / 18014398509481984"
  by code_simp

lemma lit_0_21: "float_lit 21 100 = 7566047373982433 / 36028797018963968"
  by code_simp

lemma lit_0_3: "float_lit 3 10 = 5404319552844595 / 18014398509481984"
  by code_simp

lemma lit_0_5: "float_lit 5 10 = 1 / 2"
  by code_simp

lemma lit_0_6: "float_lit 6 10 = 5404319552844595 / 9007199254740992"
  by code_simp

lemma lit_0_8: "float_lit 8 10 = 3602879701896397 / 4503599627370496"
  by code_simp

lemma lit_1_0: "float_lit 10 10 = 1"
  by code_simp

lemmas float_lits = lit_0_2 lit_0_21 lit_0_3 lit_0_5 lit_0_6 lit_0_8 lit_1_0

lemma level_of_cases:
  "level_of m = ''critical'' \<longleftrightarrow> float_lit 8 10 \<le> m"
  "level_of m = ''high'' \<longleftrightarrow> float_lit 6 10 \<le> m \<and> m < float_lit 8 10"
  "level_of m = ''medium'' \<longleftrightarrow> float_lit 3 10 \<le> m \<and> m < float_lit 6 10"
  "level_of m = ''low'' \<longleftrightarrow> m < float_lit 3 10"
  by (auto simp: level_of_def float_lits)

lemma level_of_min: "level_of (min m (float_lit 10 10)) = level_of m"
  by (simp add: level_of_def float_lits min_def)

lemma detected_of_min: "detected_of (min m (float_lit 10 10)) = detected_of m"
  by (simp add: detected_of_def float_lits min_def)

section \<open>Scores\<close>

lemma round_double_zero: "round_double 0 = 0"
  by (simp add: round_double_def)

lemma float_of_nat_mono: "m \<le> n \<Longrightarrow> float_of_nat m \<le> float_of_nat n"
  by (simp add: float_of_nat_def round_double_mono)

lemma float_of_nat_nonneg: "0 \<le> float_of_nat n"
  by (simp add: float_of_nat_def round_double_nonneg)

lemma float_of_nat_pos: "0 < n \<Longrightarrow> 0 < float_of_nat n"
  by (simp add: float_of_nat_def round_double_pos)

lemma float_of_nat_zero: "float_of_nat 0 = 0"
  by (simp add: float_of_nat_def round_double_zero)

lemma weight_pos: "0 < float_lit 3 10"
  by (simp add: lit_0_3)

lemma float_mul_mono: "0 \<le> c \<Longrightarrow> a \<le> b \<Longrightarrow> float_mul a c \<le> float_mul b c"
  by (simp add: float_mul_def round_double_mono mult_right_mono)

lemma float_mul_nonneg: "0 \<le> a \<Longrightarrow> 0 \<le> c \<Longrightarrow> 0 \<le> float_mul a c"
  by (simp add: float_mul_def round_double_nonneg)

lemma float_mul_pos: "0 < a \<Longrightarrow> 0 < c \<Longrightarrow> 0 < float_mul a c"
  by (simp add: float_mul_def round_double_pos)

lemma float_add_mono: "a \<le> a' \<Longrightarrow> b \<le> b' \<Longrightarrow> float_add a b \<le> float_add a' b'"
  by (simp add: float_add_def round_double_mono add_mono)

lemma float_add_nonneg: "0 \<le> a \<Longrightarrow> 0 \<le> b \<Longrightarrow> 0 \<le> float_add a b"
  by (simp add: float_add_def round_double_nonneg)

lemma float_add_pos: "0 \<le> a \<Longrightarrow> 0 \<le> b \<Longrightarrow> 0 < a \<or> 0 < b \<Longrightarrow> 0 < float_add a b"
  unfolding float_add_def by (rule round_double_pos) linarith

lemma term_score_nonneg: "0 \<le> term_score cl p"
  unfolding term_score_def using weight_pos
  by (intro float_mul_nonneg float_of_nat_nonneg) simp

lemma term_score_zero_iff: "term_score cl p = 0 \<longleftrightarrow> length (re_findall p cl) = 0"
proof
  assume z: "term_score cl p = 0"
  show "length (re_findall p cl) = 0"
  proof (rule ccontr)
    assume "length (re_findall p cl) \<noteq> 0"
    then have "0 < float_of_nat (length (re_findall p cl))" by (intro float_of_nat_pos) simp
    then have "0 < term_score cl p" unfolding term_score_def using weight_pos by (rule float_mul_pos)
    with z show False by simp
  qed
next
  assume "length (re_findall p cl) = 0"
  then show "term_score cl p = 0"
    by (simp add: term_score_def float_of_nat_zero float_mul_def round_double_zero)
qed

lemma term_score_mono:
  "length (re_findall p cl) \<le> length (re_findall p cl') \<Longrightarrow> term_score cl p \<le> term_score cl' p"
  unfolding term_score_def using weight_pos
  by (intro float_mul_mono float_of_nat_mono) simp_all

lemma score_patterns_step:
  "score_patterns cl (p # ps) ts = score_patterns cl ps (float_add ts (term_score cl p))"
  by (simp add: term_score_def)

lemma score_patterns_foldl:
  "score_patterns cl ps ts = foldl float_add ts (map (term_score cl) ps)"
  by (induction ps arbitrary: ts) (simp_all add: term_score_def)

lemma score_patterns_nonneg: "0 \<le> ts \<Longrightarrow> 0 \<le> score_patterns cl ps ts"
proof (induction ps arbitrary: ts)
  case Nil
  then show ?case by simp
next
  case (Cons p ps)
  have "0 \<le> float_add ts (term_score cl p)"
    using Cons.prems term_score_nonneg by (rule float_add_nonneg)
  then show ?case unfolding score_patterns_step by (rule Cons.IH)
qed

lemma score_patterns_mono:
  "ts \<le> ts' \<Longrightarrow> \<forall>p\<in>set ps. length (re_findall p cl) \<le> length (re_findall p cl')
     \<Longrightarrow> score_patterns cl ps ts \<le> score_patterns cl' ps ts'"
proof (induction ps arbitrary: ts ts')
  case Nil
  then show ?case by simp
next
  case (Cons p ps)
  have "term_score cl p \<le> term_score cl' p" using Cons.prems(2) by (intro term_score_mono) simp
  with Cons.prems(1) have "float_add ts (term_score cl p) \<le> float_add ts' (term_score cl' p)"
    by (rule float_add_mono)
  moreover have "\<forall>p\<in>set ps. length (re_findall p cl) \<le> length (re_findall p cl')"
    using Cons.prems(2) by simp
  ultimately show ?case unfolding score_patterns_step by (rule Cons.IH)
qed

lemma score_patterns_zero_iff:
  "0 \<le> ts \<Longrightarrow>
     score_patterns cl ps ts = 0 \<longleftrightarrow> ts = 0 \<and> (\<forall>p\<in>set ps. length (re_findall p cl) = 0)"
proof (induction ps arbitrary: ts)
  case Nil
  then show ?case by simp
next
  case (Cons p ps)
  let ?t = "term_score cl p"
  have nn: "0 \<le> float_add ts ?t" using Cons.prems term_score_nonneg by (rule float_add_nonneg)
  have z: "float_add ts ?t = 0 \<longleftrightarrow> ts = 0 \<and> ?t = 0"
  proof
    assume a: "float_add ts ?t = 0"
    show "ts = 0 \<and> ?t = 0"
    proof (rule ccontr)
      assume "\<not> (ts = 0 \<and> ?t = 0)"
      then have "0 < ts \<or> 0 < ?t" using Cons.prems term_score_nonneg [of cl p] by linarith
      with Cons.prems term_score_nonneg have "0 < float_add ts ?t" by (rule float_add_pos)
      with a show False by simp
    qed
  next
    assume "ts = 0 \<and> ?t = 0"
    then show "float_add ts ?t = 0" by (simp add: float_add_def round_double_zero)
  qed
  show ?case
    unfolding score_patterns_step Cons.IH [OF nn] z term_score_zero_iff by auto
qed

section \<open>The loop over the categories\<close>

lemma scores_of_Cons:
  "scores_of cl ((name, patterns) # rest) = (name, score_patterns cl patterns 0) # scores_of cl rest"
  by (simp add: scores_of_def)

lemma fold_max_ge: "(m::rat) \<le> fold max xs m"
proof (induction xs arbitrary: m)
  case Nil
  show ?case by simp
next
  case (Cons x xs)
  have "max x m \<le> fold max xs (max x m)" by (rule Cons.IH)
  then show ?case by simp
qed

lemma scan_step_greater:
  assumes "0 \<le> max_confidence st" "max_confidence st < score_patterns cl patterns 0"
  shows "scan_categories cl ((name, patterns) # cats) st
           = scan_categories cl cats
               (st\<lparr>detected_threats := detected_threats st @ [name],
                   max_confidence := score_patterns cl patterns 0, primary_threat := name\<rparr>)"
proof -
  from assms have "0 < score_patterns cl patterns 0" by linarith
  with assms(2) show ?thesis by (simp add: Let_def)
qed

lemma scan_step_not_greater:
  assumes "\<not> max_confidence st < score_patterns cl patterns 0"
  shows "\<exists>st'. scan_categories cl ((name, patterns) # cats) st = scan_categories cl cats st'
           \<and> max_confidence st' = max_confidence st \<and> primary_threat st' = primary_threat st"
proof (cases "0 < score_patterns cl patterns 0")
  case True
  with assms have "scan_categories cl ((name, patterns) # cats) st
      = scan_categories cl cats (st\<lparr>detected_threats := detected_threats st @ [name]\<rparr>)"
    by (simp add: Let_def)
  then show ?thesis by (intro exI [of _ "st\<lparr>detected_threats := detected_threats st @ [name]\<rparr>"]) simp
next
  case False
  then have "scan_categories cl ((name, patterns) # cats) st = scan_categories cl cats st"
    by (simp add: Let_def)
  then show ?thesis by (intro exI [of _ st]) simp
qed

lemma scan_max_confidence:
  "0 \<le> max_confidence st \<Longrightarrow>
     max_confidence (scan_categories cl cats st)
       = fold max (map snd (scores_of cl cats)) (max_confidence st)"
proof (induction cats arbitrary: st)
  case Nil
  show ?case by (simp add: scores_of_def)
next
  case (Cons a cats)
  obtain name patterns where a: "a = (name, patterns)" by (cases a)
  let ?s = "score_patterns cl patterns 0"
  show ?case unfolding a
  proof (cases "max_confidence st < ?s")
    case True
    let ?st = "st\<lparr>detected_threats := detected_threats st @ [name],
                   max_confidence := ?s, primary_threat := name\<rparr>"
    have mx: "max ?s (max_confidence st) = ?s" using True by simp
    have "0 \<le> max_confidence ?st" using True Cons.prems by simp
    from Cons.IH [OF this]
    show "max_confidence (scan_categories cl ((name, patterns) # cats) st)
            = fold max (map snd (scores_of cl ((name, patterns) # cats))) (max_confidence st)"
      unfolding scan_step_greater [OF Cons.prems True] scores_of_Cons by (simp add: mx)
  next
    case False
    have mx: "max ?s (max_confidence st) = max_confidence st" using False by simp
    from scan_step_not_greater [OF False] obtain st' where
      s: "scan_categories cl ((name, patterns) # cats) st = scan_categories cl cats st'"
      and m: "max_confidence st' = max_confidence st" by blast
    have "0 \<le> max_confidence st'" using Cons.prems m by simp
    from Cons.IH [OF this]
    show "max_confidence (scan_categories cl ((name, patterns) # cats) st)
            = fold max (map snd (scores_of cl ((name, patterns) # cats))) (max_confidence st)"
      unfolding s scores_of_Cons m by (simp add: mx)
  qed
qed

lemma scan_primary_threat:
  "0 \<le> max_confidence st \<Longrightarrow>
     (fold max (map snd (scores_of cl cats)) (max_confidence st) = max_confidence st
        \<longrightarrow> primary_threat (scan_categories cl cats st) = primary_threat st)
     \<and> (fold max (map snd (scores_of cl cats)) (max_confidence st) \<noteq> max_confidence st
        \<longrightarrow> find (\<lambda>ns. snd ns = fold max (map snd (scores_of cl cats)) (max_confidence st))
             (scores_of cl cats)
           = Some (primary_threat (scan_categories cl cats st),
                   fold max (map snd (scores_of cl cats)) (max_confidence st)))"
proof (induction cats arbitrary: st)
  case Nil
  show ?case by (simp add: scores_of_def)
next
  case (Cons a cats)
  obtain name patterns where a: "a = (name, patterns)" by (cases a)
  let ?s = "score_patterns cl patterns 0"
  let ?sc = "scores_of cl cats"
  show ?case unfolding a
  proof (cases "max_confidence st < ?s")
    case True
    let ?st = "st\<lparr>detected_threats := detected_threats st @ [name],
                   max_confidence := ?s, primary_threat := name\<rparr>"
    let ?M = "fold max (map snd ?sc) ?s"
    let ?R = "scan_categories cl cats ?st"
    have mx: "max ?s (max_confidence st) = ?s" using True by simp
    have "0 \<le> max_confidence ?st" using True Cons.prems by simp
    from Cons.IH [OF this] have ih:
      "?M = ?s \<longrightarrow> primary_threat ?R = name"
      "?M \<noteq> ?s \<longrightarrow> find (\<lambda>ns. snd ns = ?M) ?sc = Some (primary_threat ?R, ?M)"
      by simp_all
    have ne: "?M \<noteq> max_confidence st" using fold_max_ge [of ?s "map snd ?sc"] True by linarith
    have "find (\<lambda>ns. snd ns = ?M) ((name, ?s) # ?sc) = Some (primary_threat ?R, ?M)"
      using ih by (cases "?M = ?s") simp_all
    with ne
    show "(fold max (map snd (scores_of cl ((name, patterns) # cats))) (max_confidence st)
             = max_confidence st
          \<longrightarrow> primary_threat (scan_categories cl ((name, patterns) # cats) st) = primary_threat st)
          \<and> (fold max (map snd (scores_of cl ((name, patterns) # cats))) (max_confidence st)
             \<noteq> max_confidence st
          \<longrightarrow> find (\<lambda>ns. snd ns
                  = fold max (map snd (scores_of cl ((name, patterns) # cats))) (max_confidence st))
                 (scores_of cl ((name, patterns) # cats))
               = Some (primary_threat (scan_categories cl ((name, patterns) # cats) st),
                   fold max (map snd (scores_of cl ((name, patterns) # cats))) (max_confidence st)))"
      unfolding scan_step_greater [OF Cons.prems True] scores_of_Cons by (simp add: mx)
  next
    case False
    let ?M = "fold max (map snd ?sc) (max_confidence st)"
    have mx: "max ?s (max_confidence st) = max_confidence st" using False by simp
    from scan_step_not_greater [OF False] obtain st' where
      s: "scan_categories cl ((name, patterns) # cats) st = scan_categories cl cats st'"
      and m: "max_confidence st' = max_confidence st"
      and p: "primary_threat st' = primary_threat st" by blast
    let ?R = "scan_categories cl cats st'"
    have "0 \<le> max_confidence st'" using Cons.prems m by simp
    from Cons.IH [OF this] have ih:
      "?M = max_confidence st \<longrightarrow> primary_threat ?R = primary_threat st"
      "?M \<noteq> max_confidence st
         \<longrightarrow> find (\<lambda>ns. snd ns = ?M) ?sc = Some (primary_threat ?R, ?M)"
      unfolding m p by simp_all
    have "?M \<noteq> max_confidence st \<Longrightarrow> ?s \<noteq> ?M"
      using fold_max_ge [of "max_confidence st" "map snd ?sc"] False by linarith
    with ih
    show "(fold max (map snd (scores_of cl ((name, patterns) # cats))) (max_confidence st)
             = max_confidence st
          \<longrightarrow> primary_threat (scan_categories cl ((name, patterns) # cats) st) = primary_threat st)
          \<and> (fold max (map snd (scores_of cl ((name, patterns) # cats))) (max_confidence st)
             \<noteq> max_confidence st
          \<longrightarrow> find (\<lambda>ns. snd ns
                  = fold max (map snd (scores_of cl ((name, patterns) # cats))) (max_confidence st))
                 (scores_of cl ((name, patterns) # cats))
               = Some (primary_threat (scan_categories cl ((name, patterns) # cats) st),
                   fold max (map snd (scores_of cl ((name, patterns) # cats))) (max_confidence st)))"
      unfolding s scores_of_Cons by (simp add: mx)
  qed
qed

lemma fold_max_Max: "fold max xs (m::rat) = Max (set (m # xs))"
  by (rule Max.set_eq_fold [symmetric])

lemma category_scores_eq: "category_scores c = scores_of (lower c) threat_patterns"
  by (simp add: category_scores_def scores_of_def)

lemma analyze_max_confidence:
  "max_confidence (scan_categories (lower c) threat_patterns initial_state)
     = max_score (category_scores c)"
proof -
  have "0 \<le> max_confidence initial_state" by (simp add: initial_state_def)
  from scan_max_confidence [OF this, of "lower c" threat_patterns] show ?thesis
    unfolding category_scores_eq max_score_def fold_max_Max by (simp add: initial_state_def)
qed

lemma analyze_primary_threat:
  "(max_score (category_scores c) = 0
      \<longrightarrow> primary_threat (scan_categories (lower c) threat_patterns initial_state) = ''other'')
   \<and> (max_score (category_scores c) \<noteq> 0
      \<longrightarrow> find (\<lambda>ns. snd ns = max_score (category_scores c)) (category_scores c)
         = Some (primary_threat (scan_categories (lower c) threat_patterns initial_state),
                 max_score (category_scores c)))"
proof -
  have z: "max_confidence initial_state = 0" "primary_threat initial_state = ''other''"
    by (simp_all add: initial_state_def)
  have "0 \<le> max_confidence initial_state" by (simp add: z)
  from scan_primary_threat [OF this, of "lower c" threat_patterns] show ?thesis
    unfolding category_scores_eq max_score_def fold_max_Max z .
qed

lemma analyze_fields:
  "threat_type (analyze_threat_content c)
     = primary_threat (scan_categories (lower c) threat_patterns initial_state)"
  "confidence_score (analyze_threat_content c) = min (max_score (category_scores c)) (float_lit 10 10)"
  "threat_level (analyze_threat_content c) = level_of (max_score (category_scores c))"
  "threat_detected (analyze_threat_content c) = detected_of (max_score (category_scores c))"
  "recommended_actions (analyze_threat_content c)
     = recommendations_of (max_score (category_scores c)) (level_of (max_score (category_scores c)))"
  by (simp_all add: analyze_threat_content_def Let_def analyze_max_confidence)

lemma category_names:
  "map fst (category_scores c)
     = [''cyberbullying'', ''harassment'', ''inappropriate_content'', ''phishing'']"
  by (simp add: category_scores_def threat_patterns_def)

lemma category_scores_nonneg: "ns \<in> set (category_scores c) \<Longrightarrow> 0 \<le> snd ns"
  by (auto simp: category_scores_def score_patterns_nonneg)

lemma max_score_ge: "ns \<in> set (category_scores c) \<Longrightarrow> snd ns \<le> max_score (category_scores c)"
  unfolding max_score_def by (intro Max_ge) auto

lemma max_score_nonneg: "0 \<le> max_score scores"
  unfolding max_score_def by (intro Max_ge) auto

lemma max_score_zero_iff:
  "max_score (category_scores c) = 0 \<longleftrightarrow> (\<forall>ns\<in>set (category_scores c). snd ns = 0)"
proof
  assume z: "max_score (category_scores c) = 0"
  show "\<forall>ns\<in>set (category_scores c). snd ns = 0"
  proof
    fix ns assume m: "ns \<in> set (category_scores c)"
    from max_score_ge [OF m] category_scores_nonneg [OF m] z show "snd ns = 0" by linarith
  qed
next
  assume "\<forall>ns\<in>set (category_scores c). snd ns = 0"
  then have "set (0 # map snd (category_scores c)) = {0}" by auto
  then show "max_score (category_scores c) = 0" unfolding max_score_def by (simp only: Max_singleton)
qed

lemma score_patterns_weighted: "score_patterns (lower c) pats 0 = weighted_sum c pats"
proof -
  have "term_score (lower c) = (\<lambda>p. float_mul (float_of_nat (match_count p c)) (float_lit 3 10))"
    by (simp add: term_score_def match_count_def fun_eq_iff)
  then show ?thesis by (simp add: score_patterns_foldl weighted_sum_def)
qed

lemma category_scores_weighted:
  "category_scores c = map (\<lambda>(name, pats). (name, weighted_sum c pats)) threat_patterns"
  by (simp add: category_scores_def score_patterns_weighted)

lemma no_match_iff:
  "max_score (category_scores c) = 0
     \<longleftrightarrow> (\<forall>(name, pats)\<in>set threat_patterns. \<forall>p\<in>set pats. match_count p c = 0)"
proof -
  have "score_patterns (lower c) pats 0 = 0 \<longleftrightarrow> (\<forall>p\<in>set pats. match_count p c = 0)" for pats
    using score_patterns_zero_iff [of 0 "lower c" pats] by (simp add: match_count_def)
  then show ?thesis unfolding max_score_zero_iff by (auto simp: category_scores_def)
qed

lemma two_categories:
  "(''cyberbullying'', score_patterns (lower c) (snd (threat_patterns ! 0)) 0) \<in> set (category_scores c)"
  "(''harassment'', score_patterns (lower c) (snd (threat_patterns ! 1)) 0) \<in> set (category_scores c)"
  by (simp_all add: category_scores_def threat_patterns_def)

lemma winner_zero:
  "max_score (category_scores c) = 0 \<longrightarrow>
     threat_type (analyze_threat_content c) = ''other''
     \<and> confidence_score (analyze_threat_content c) = 0"
  using analyze_primary_threat [of c] by (simp add: analyze_fields lit_1_0)

lemma winner_first:
  "max_score (category_scores c) \<noteq> 0 \<longrightarrow>
     (\<exists>i<length (category_scores c).
         category_scores c ! i
           = (threat_type (analyze_threat_content c), max_score (category_scores c))
         \<and> (\<forall>j<i. snd (category_scores c ! j) < max_score (category_scores c)))"
proof
  let ?sc = "category_scores c"
  let ?M = "max_score ?sc"
  let ?t = "threat_type (analyze_threat_content c)"
  assume "?M \<noteq> 0"
  with analyze_primary_threat [of c] have f: "find (\<lambda>ns. snd ns = ?M) ?sc = Some (?t, ?M)"
    by (simp add: analyze_fields)
  from f [unfolded find_Some_iff] obtain i where
    ex: "i < length ?sc \<and> snd (?sc ! i) = ?M \<and> (?t, ?M) = ?sc ! i
           \<and> (\<forall>j<i. \<not> snd (?sc ! j) = ?M)" ..
  from ex have i: "i < length ?sc" "?sc ! i = (?t, ?M)" by simp_all
  from ex have b: "\<forall>j<i. snd (?sc ! j) \<noteq> ?M" by simp
  have "\<forall>j<i. snd (?sc ! j) < ?M"
  proof (intro allI impI)
    fix j assume j: "j < i"
    with i have "?sc ! j \<in> set ?sc" by simp
    then have "snd (?sc ! j) \<le> ?M" by (rule max_score_ge)
    moreover from b j have "snd (?sc ! j) \<noteq> ?M" by blast
    ultimately show "snd (?sc ! j) < ?M" by linarith
  qed
  with i show "\<exists>i<length ?sc. ?sc ! i = (?t, ?M) \<and> (\<forall>j<i. snd (?sc ! j) < ?M)" by blast
qed

lemma winner_strict:
  "\<forall>name s. (name, s) \<in> set (category_scores c)
        \<and> (\<forall>(name', s')\<in>set (category_scores c). name' \<noteq> name \<longrightarrow> s' < s)
        \<longrightarrow> threat_type (analyze_threat_content c) = name"
proof (intro allI impI, elim conjE)
  let ?sc = "category_scores c"
  let ?M = "max_score ?sc"
  let ?t = "threat_type (analyze_threat_content c)"
  fix name s
  assume m: "(name, s) \<in> set ?sc"
    and g: "\<forall>(name', s')\<in>set ?sc. name' \<noteq> name \<longrightarrow> s' < s"
  obtain name' s' where o: "(name', s') \<in> set ?sc" "name' \<noteq> name"
  proof (cases "name = ''cyberbullying''")
    case True
    with two_categories(2) [of c] that show ?thesis by blast
  next
    case False
    with two_categories(1) [of c] that show ?thesis by blast
  qed
  from g o have "s' < s" by blast
  moreover from category_scores_nonneg [OF o(1)] have "0 \<le> s'" by simp
  moreover from max_score_ge [OF m] have sM: "s \<le> ?M" by simp
  ultimately have "?M \<noteq> 0" by linarith
  with winner_first [of c] obtain i where i: "i < length ?sc \<and> ?sc ! i = (?t, ?M)" by blast
  then have "(?t, ?M) \<in> set ?sc" by (metis nth_mem)
  with g have "?t \<noteq> name \<longrightarrow> ?M < s" by blast
  with sM show "?t = name" by auto
qed

lemma winner_member:
  "max_score (category_scores c) \<noteq> 0 \<longrightarrow>
     (threat_type (analyze_threat_content c), max_score (category_scores c))
       \<in> set (category_scores c)"
proof
  assume "max_score (category_scores c) \<noteq> 0"
  with winner_first [of c] obtain i where
    "i < length (category_scores c) \<and> category_scores c ! i
       = (threat_type (analyze_threat_content c), max_score (category_scores c))" by blast
  then show "(threat_type (analyze_threat_content c), max_score (category_scores c))
       \<in> set (category_scores c)" by (metis nth_mem)
qed

lemma category_score_unique:
  "(name, pats) \<in> set threat_patterns \<Longrightarrow> (name, s) \<in> set (category_scores c)
     \<Longrightarrow> s = score_patterns (lower c) pats 0"
  by (auto simp: category_scores_def threat_patterns_def)

section \<open>The scores stay in the range of the normal doubles\<close>

text \<open>
  A Python string has fewer than \<open>2 ^ 63\<close> characters. For such a content every float of
  the scoring (a converted match count, a summand, a raw score) is 0 or lies between
  \<open>2 ^ (- 2)\<close> and \<open>2 ^ 66\<close>, far inside the range of the normal doubles, where rounding
  with an unbounded exponent is the rounding of binary64.
\<close>

lemma re_findall_from_length: "length (re_findall_from p prev s) \<le> length s"
proof (induction p prev s rule: re_findall_from.induct)
  case (1 p prev)
  show ?case by simp
next
  case (2 p prev c cs)
  show ?case
  proof (cases "match_here p prev (c # cs)")
    case None
    with 2(1) show ?thesis by simp
  next
    case (Some w)
    from 2(2) [OF Some]
    have "length (re_findall_from p (Some ((c # cs) ! (length w - 1))) (drop (length w - 1) cs))
            \<le> length cs" by simp
    with Some show ?thesis by simp
  qed
qed

lemma match_count_le_length: "match_count p content \<le> length content"
  using re_findall_from_length [of p None "lower content"]
  by (simp add: match_count_def re_findall_def lower_def)

lemma pow2_strict_mono: "a < b \<Longrightarrow> pow2 a < pow2 b"
  by (simp add: pow2_powi power_int_strict_increasing)

lemma round_double_upper:
  assumes "0 \<le> x" "x < pow2 b" shows "round_double x \<le> pow2 b"
proof (cases "x = 0")
  case True
  then show ?thesis using pow2_pos [of b] by (simp add: round_double_def)
next
  case False
  with assms have x: "0 < x" by simp
  have "binade x < b"
  proof (rule ccontr)
    assume "\<not> binade x < b"
    then have "pow2 b \<le> pow2 (binade x)" by (intro pow2_mono) simp
    with binade_lower [OF x] assms(2) show False by linarith
  qed
  then have "pow2 (binade x + 1) \<le> pow2 b" by (intro pow2_mono) simp
  with round_pos_upper [OF x] x show ?thesis by (simp add: round_double_def)
qed

lemma round_double_lower:
  assumes "pow2 a \<le> x" shows "pow2 a \<le> round_double x"
proof -
  from assms pow2_pos [of a] have x: "0 < x" by linarith
  have "a \<le> binade x"
  proof (rule ccontr)
    assume "\<not> a \<le> binade x"
    then have "pow2 (binade x + 1) \<le> pow2 a" by (intro pow2_mono) simp
    with binade_upper [OF x] assms show False by linarith
  qed
  then have "pow2 a \<le> pow2 (binade x)" by (rule pow2_mono)
  with round_pos_lower [OF x] x show ?thesis by (simp add: round_double_def)
qed

lemma float_of_nat_range:
  assumes "0 < n" "n < 2 ^ 63"
  shows "pow2 0 \<le> float_of_nat n \<and> float_of_nat n \<le> pow2 63"
proof -
  have "pow2 0 \<le> of_nat n" using assms(1) by (simp add: pow2_def)
  then have l: "pow2 0 \<le> float_of_nat n" unfolding float_of_nat_def by (rule round_double_lower)
  have "(of_nat n :: rat) < of_nat (2 ^ 63)" using assms(2) by (simp only: of_nat_less_iff)
  then have "(of_nat n :: rat) < pow2 63" using pow2_nat [of 63] by simp
  then have "float_of_nat n \<le> pow2 63" unfolding float_of_nat_def
    by (intro round_double_upper) simp_all
  with l show ?thesis by simp
qed

lemma weight_range: "pow2 (- 2) \<le> float_lit 3 10 \<and> float_lit 3 10 < pow2 (- 1)"
  by (simp add: lit_0_3 pow2_def)

lemma term_score_range:
  assumes "length cl < 2 ^ 63"
  shows "term_score cl p = 0 \<or> (pow2 (- 2) \<le> term_score cl p \<and> term_score cl p \<le> pow2 62)"
proof (cases "length (re_findall p cl) = 0")
  case True
  then show ?thesis by (simp add: term_score_zero_iff)
next
  case False
  let ?n = "length (re_findall p cl)"
  let ?f = "float_of_nat ?n"
  have "?n \<le> length cl" by (simp add: re_findall_def re_findall_from_length)
  with assms False have "0 < ?n" "?n < 2 ^ 63" by simp_all
  from float_of_nat_range [OF this] have f: "pow2 0 \<le> ?f" "?f \<le> pow2 63" by simp_all
  from f(1) pow2_pos [of 0] have fpos: "0 < ?f" by linarith
  from weight_range have w: "pow2 (- 2) \<le> float_lit 3 10" "float_lit 3 10 < pow2 (- 1)"
    by simp_all
  from w(1) pow2_pos [of "- 2"] have wpos: "0 < float_lit 3 10" by linarith
  have "pow2 0 * pow2 (- 2) \<le> ?f * float_lit 3 10"
    using f(1) w(1) pow2_pos [of 0] pow2_pos [of "- 2"] by (intro mult_mono) simp_all
  moreover have "pow2 0 = 1" by (simp add: pow2_def)
  ultimately have lo: "pow2 (- 2) \<le> ?f * float_lit 3 10" by simp
  have "?f * float_lit 3 10 < pow2 63 * pow2 (- 1)"
    using f(2) w(2) fpos wpos by (intro mult_le_less_imp_less) simp_all
  then have hi: "?f * float_lit 3 10 < pow2 62" using pow2_add [of 63 "- 1"] by simp
  from lo have "pow2 (- 2) \<le> term_score cl p"
    unfolding term_score_def float_mul_def by (rule round_double_lower)
  moreover from hi fpos wpos have "term_score cl p \<le> pow2 62"
    unfolding term_score_def float_mul_def by (intro round_double_upper) simp_all
  ultimately show ?thesis by simp
qed

lemma score_patterns_upper:
  "length cl < 2 ^ 63 \<Longrightarrow> 0 \<le> acc \<Longrightarrow> acc \<le> pow2 k \<Longrightarrow> 62 \<le> k
     \<Longrightarrow> score_patterns cl ps acc \<le> pow2 (k + 2 * int (length ps))"
proof (induction ps arbitrary: acc k)
  case Nil
  then show ?case by simp
next
  case (Cons p ps)
  let ?t = "term_score cl p"
  have t: "0 \<le> ?t" "?t \<le> pow2 62"
    using term_score_range [OF Cons.prems(1), of p] term_score_nonneg [of cl p] pow2_pos [of 62]
    by auto
  have "pow2 62 \<le> pow2 k" using Cons.prems(4) by (rule pow2_mono)
  with t Cons.prems have "acc + ?t \<le> pow2 k + pow2 k" by linarith
  also have "\<dots> = pow2 (k + 1)" using pow2_add [of k 1] by (simp add: pow2_def)
  also have "\<dots> < pow2 (k + 2)" by (intro pow2_strict_mono) simp
  finally have "float_add acc ?t \<le> pow2 (k + 2)"
    unfolding float_add_def using Cons.prems(2) t(1) by (intro round_double_upper) simp_all
  moreover have "0 \<le> float_add acc ?t" using Cons.prems(2) t(1) by (rule float_add_nonneg)
  moreover have "62 \<le> k + 2" using Cons.prems(4) by simp
  ultimately have "score_patterns cl ps (float_add acc ?t) \<le> pow2 (k + 2 + 2 * int (length ps))"
    using Cons.prems(1) by (intro Cons.IH)
  then show ?case unfolding score_patterns_step by (simp add: algebra_simps)
qed

lemma score_patterns_lower:
  "length cl < 2 ^ 63 \<Longrightarrow> acc = 0 \<or> pow2 (- 2) \<le> acc
     \<Longrightarrow> score_patterns cl ps acc = 0 \<or> pow2 (- 2) \<le> score_patterns cl ps acc"
proof (induction ps arbitrary: acc)
  case Nil
  then show ?case by simp
next
  case (Cons p ps)
  let ?t = "term_score cl p"
  have t: "?t = 0 \<or> pow2 (- 2) \<le> ?t" using term_score_range [OF Cons.prems(1), of p] by blast
  have "float_add acc ?t = 0 \<or> pow2 (- 2) \<le> float_add acc ?t"
  proof (cases "acc = 0 \<and> ?t = 0")
    case True
    then show ?thesis by (simp add: float_add_def round_double_zero)
  next
    case False
    with t Cons.prems(2) pow2_pos [of "- 2"] have "pow2 (- 2) \<le> acc + ?t" by auto
    then have "pow2 (- 2) \<le> float_add acc ?t" unfolding float_add_def by (rule round_double_lower)
    then show ?thesis by simp
  qed
  from Cons.IH [OF Cons.prems(1) this] show ?case unfolding score_patterns_step .
qed

lemma category_scores_range:
  assumes "length content < 2 ^ 63" and "ns \<in> set (category_scores content)"
  shows "snd ns = 0 \<or> (pow2 (- 2) \<le> snd ns \<and> snd ns \<le> pow2 66)"
proof -
  from assms(2) obtain name pats where np: "(name, pats) \<in> set threat_patterns"
    and s: "snd ns = score_patterns (lower content) pats 0"
    by (auto simp: category_scores_def)
  from np have len: "length pats = 2" by (auto simp: threat_patterns_def)
  have l: "length (lower content) < 2 ^ 63" using assms(1) by (simp add: lower_def)
  have "(0::rat) \<le> pow2 62" using pow2_pos [of 62] by simp
  with l have "score_patterns (lower content) pats 0 \<le> pow2 (62 + 2 * int (length pats))"
    by (intro score_patterns_upper) simp_all
  then have "snd ns \<le> pow2 66" by (simp add: s len)
  moreover from score_patterns_lower [OF l, of 0 pats]
  have "snd ns = 0 \<or> pow2 (- 2) \<le> snd ns" by (simp add: s)
  ultimately show ?thesis by blast
qed

section \<open>Appending text behind a space loses no match\<close>

text \<open>
  The patterns of the registry are separated. For a separated pattern the scan of a
  content and the scan of the same content followed by a non-word character and any text
  agree on every match of the content: a match stays what it is, and a new match that
  reaches into the appended text starts where the content has no match left. So the number
  of matches does not decrease, and neither does a raw score.
\<close>

lemma take_eq_length: "take (length v) s = v \<Longrightarrow> length v \<le> length s"
proof -
  assume "take (length v) s = v"
  then have "length (take (length v) s) = length v" by simp
  then show ?thesis by (simp add: min_def split: if_splits)
qed

lemma occurs_in_take: "take (length v) s = v \<Longrightarrow> occurs_in v s"
  by (cases s) auto

lemma occurs_in_length: "occurs_in v s \<Longrightarrow> length v \<le> length s"
proof (induction s)
  case Nil
  then show ?case by simp
next
  case (Cons x xs)
  from Cons.prems have "take (length v) (x # xs) = v \<or> occurs_in v xs" by simp
  then show ?case
  proof
    assume "take (length v) (x # xs) = v"
    then show ?thesis by (rule take_eq_length)
  next
    assume "occurs_in v xs"
    with Cons.IH show ?thesis by simp
  qed
qed

lemma take_append_same: "take (length v) s = v \<Longrightarrow> take (length v) (s @ r) = v"
  using take_eq_length [of v s] by simp

lemma occurs_in_append: "occurs_in v s \<Longrightarrow> occurs_in v (s @ r)"
proof (induction s)
  case Nil
  then show ?case by (simp add: occurs_in_take)
next
  case (Cons x xs)
  from Cons.prems have "take (length v) (x # xs) = v \<or> occurs_in v xs" by simp
  then show ?case
  proof
    assume "take (length v) (x # xs) = v"
    then have "take (length v) ((x # xs) @ r) = v" by (rule take_append_same)
    then show ?thesis by (rule occurs_in_take)
  next
    assume "occurs_in v xs"
    with Cons.IH show ?thesis by simp
  qed
qed

lemma match_alternatives_Some:
  "match_alternatives ws prev s = Some v \<Longrightarrow> v \<in> set ws \<and> take (length v) s = v"
  by (induction ws) (auto split: if_splits)

lemma next_char_append: "s \<noteq> [] \<Longrightarrow> next_char (s @ r) = next_char s"
  by (cases s) (simp_all add: next_char_def)

lemma closing_boundary_append:
  assumes "\<not> is_word_char a" "length w \<le> length s"
  shows "word_boundary x (next_char (drop (length w) (s @ a # t)))
           = word_boundary x (next_char (drop (length w) s))"
proof (cases "length w < length s")
  case True
  then have "drop (length w) s \<noteq> []" by simp
  then show ?thesis using True by (simp add: next_char_append)
next
  case False
  with assms(2) have "length w = length s" by simp
  then show ?thesis using assms(1)
    by (simp add: next_char_def word_boundary_def is_word_opt_def)
qed

lemma match_alternatives_Cons:
  "match_alternatives (w # ws) prev s
     = (if alternative_matches w prev s then Some w else match_alternatives ws prev s)"
  by (simp add: alternative_matches_def)

lemma alternative_matches_take: "alternative_matches w prev s \<Longrightarrow> take (length w) s = w"
  by (simp add: alternative_matches_def)

lemma alternative_append_iff:
  assumes "\<not> is_word_char a" "length w \<le> length s"
  shows "alternative_matches w prev (s @ a # t) = alternative_matches w prev s"
proof -
  have "take (length w) (s @ a # t) = take (length w) s" using assms(2) by simp
  with closing_boundary_append [OF assms, where t = t] show ?thesis
    unfolding alternative_matches_def by (simp only:)
qed

lemma longer_alternative_prefix:
  assumes "take (length w) (s @ r) = w" "length s < length w"
  shows "take (length s) w = s"
proof -
  have "take (length s) w = take (length s) (take (length w) (s @ r))" using assms(1) by simp
  also have "\<dots> = take (length s) (s @ r)" using assms(2) by (simp add: min_def)
  finally show ?thesis by simp
qed

lemma match_alternatives_append_Some:
  "match_alternatives ws prev s = Some v
     \<Longrightarrow> \<forall>w\<in>set ws. take (length v) w = v \<longrightarrow> w = v
     \<Longrightarrow> \<not> is_word_char a
     \<Longrightarrow> match_alternatives ws prev (s @ a # t) = Some v"
proof (induction ws)
  case Nil
  then show ?case by simp
next
  case (Cons w ws)
  show ?case
  proof (cases "alternative_matches w prev s")
    case True
    then have "length w \<le> length s" using take_eq_length [of w s] alternative_matches_take by blast
    from alternative_append_iff [OF Cons.prems(3) this, where prev = prev and t = t] True
    have "alternative_matches w prev (s @ a # t)" by simp
    moreover from True Cons.prems(1) have "v = w" by (simp only: match_alternatives_Cons if_True) simp
    ultimately show ?thesis by (simp only: match_alternatives_Cons if_True)
  next
    case False
    with Cons.prems(1) have tail: "match_alternatives ws prev s = Some v"
      by (simp only: match_alternatives_Cons if_False)
    from match_alternatives_Some [OF tail] have v: "take (length v) s = v" by simp
    have nt: "\<not> alternative_matches w prev (s @ a # t)"
    proof
      assume ct: "alternative_matches w prev (s @ a # t)"
      show False
      proof (cases "length w \<le> length s")
        case True
        from alternative_append_iff [OF Cons.prems(3) this, where prev = prev and t = t] ct False
        show False by simp
      next
        case False
        then have lt: "length s < length w" by simp
        from ct have "take (length w) (s @ a # t) = w" by (rule alternative_matches_take)
        from longer_alternative_prefix [OF this lt] have sw: "take (length s) w = s" .
        from take_eq_length [OF v] have vs: "length v \<le> length s" .
        then have "take (length v) w = take (length v) (take (length s) w)"
          by (simp add: min_def)
        also have "\<dots> = v" using sw v by simp
        finally have "w = v" using Cons.prems(2) by simp
        with lt vs show False by simp
      qed
    qed
    have "\<forall>w\<in>set ws. take (length v) w = v \<longrightarrow> w = v" using Cons.prems(2) by simp
    from Cons.IH [OF tail this Cons.prems(3)] nt show ?thesis
      by (simp only: match_alternatives_Cons if_False)
  qed
qed

lemma match_alternatives_append_None:
  "match_alternatives ws prev s = None
     \<Longrightarrow> match_alternatives ws prev (s @ a # t) = Some u
     \<Longrightarrow> \<not> is_word_char a
     \<Longrightarrow> u \<in> set ws \<and> length s < length u \<and> take (length s) u = s"
proof (induction ws)
  case Nil
  then show ?case by simp
next
  case (Cons w ws)
  have ncs: "\<not> alternative_matches w prev s"
  proof
    assume "alternative_matches w prev s"
    then have "match_alternatives (w # ws) prev s = Some w"
      by (simp only: match_alternatives_Cons if_True)
    with Cons.prems(1) show False by simp
  qed
  with Cons.prems(1) have tail: "match_alternatives ws prev s = None"
    by (simp only: match_alternatives_Cons if_False)
  show ?case
  proof (cases "alternative_matches w prev (s @ a # t)")
    case True
    with Cons.prems(2) have u: "u = w" by (simp only: match_alternatives_Cons if_True) simp
    have lt: "length s < length w"
    proof (rule ccontr)
      assume "\<not> length s < length w"
      then have "length w \<le> length s" by simp
      from alternative_append_iff [OF Cons.prems(3) this, where prev = prev and t = t] True ncs
      show False by simp
    qed
    from True have "take (length w) (s @ a # t) = w" by (rule alternative_matches_take)
    from longer_alternative_prefix [OF this lt] lt u show ?thesis by simp
  next
    case False
    with Cons.prems(2) have "match_alternatives ws prev (s @ a # t) = Some u"
      by (simp only: match_alternatives_Cons if_False)
    from Cons.IH [OF tail this Cons.prems(3)] show ?thesis by simp
  qed
qed

lemma separated_prefix:
  assumes "separated p" "v \<in> set p" "w \<in> set p" "take (length v) w = v"
  shows "w = v"
proof -
  from assms(4) have "occurs_in v w" by (rule occurs_in_take)
  with assms(1-3) show ?thesis unfolding separated_def by blast
qed

lemma match_here_Some:
  "match_here p prev s = Some v \<Longrightarrow> v \<in> set p \<and> take (length v) s = v"
  unfolding match_here_def using match_alternatives_Some [of p prev s v]
  by (simp split: if_splits)

lemma match_here_append_Some:
  assumes "separated p" "\<not> is_word_char a" "match_here p prev (c # cs) = Some v"
  shows "match_here p prev ((c # cs) @ a # t) = Some v"
proof -
  from assms(3) have b: "word_boundary prev (next_char (c # cs))"
    and m: "match_alternatives p prev (c # cs) = Some v"
    unfolding match_here_def by (simp_all split: if_splits)
  from match_alternatives_Some [OF m] have v: "v \<in> set p" by simp
  have "\<forall>w\<in>set p. take (length v) w = v \<longrightarrow> w = v"
    using separated_prefix [OF assms(1) v] by blast
  from match_alternatives_append_Some [OF m this assms(2)]
  have "match_alternatives p prev ((c # cs) @ a # t) = Some v" .
  moreover have "next_char ((c # cs) @ a # t) = next_char (c # cs)"
    by (rule next_char_append) simp
  ultimately show ?thesis unfolding match_here_def using b by simp
qed

lemma match_here_append_None:
  assumes "\<not> is_word_char a" "match_here p prev (c # cs) = None"
    and "match_here p prev ((c # cs) @ a # t) = Some u"
  shows "u \<in> set p \<and> length (c # cs) < length u \<and> take (length (c # cs)) u = c # cs"
proof -
  have n: "next_char ((c # cs) @ a # t) = next_char (c # cs)"
    by (rule next_char_append) simp
  from assms(3) have b: "word_boundary prev (next_char (c # cs))"
    and m: "match_alternatives p prev ((c # cs) @ a # t) = Some u"
    unfolding match_here_def n by (simp_all split: if_splits)
  from assms(2) b have "match_alternatives p prev (c # cs) = None"
    unfolding match_here_def by simp
  from match_alternatives_append_None [OF this m assms(1)] show ?thesis .
qed

lemma re_findall_from_none:
  "\<forall>v\<in>set p. \<not> occurs_in v s \<Longrightarrow> re_findall_from p prev s = []"
proof (induction p prev s rule: re_findall_from.induct)
  case (1 p prev)
  show ?case by simp
next
  case (2 p prev c cs)
  have none: "match_here p prev (c # cs) = None"
  proof (cases "match_here p prev (c # cs)")
    case None
    then show ?thesis .
  next
    case (Some w)
    from match_here_Some [OF Some] have "w \<in> set p" "occurs_in w (c # cs)"
      by (simp_all add: occurs_in_take)
    with "2.prems" show ?thesis by blast
  qed
  have "\<forall>v\<in>set p. \<not> occurs_in v cs" using "2.prems" by simp
  from "2.IH"(1) [OF none this] none show ?case by simp
qed

lemma re_findall_from_append:
  "separated p \<Longrightarrow> \<not> is_word_char a
     \<Longrightarrow> length (re_findall_from p prev s) \<le> length (re_findall_from p prev (s @ a # t))"
proof (induction p prev s rule: re_findall_from.induct)
  case (1 p prev)
  show ?case by simp
next
  case (2 p prev c cs)
  show ?case
  proof (cases "match_here p prev (c # cs)")
    case None
    have l: "re_findall_from p prev (c # cs) = re_findall_from p (Some c) cs"
      using None by simp
    show ?thesis
    proof (cases "match_here p prev ((c # cs) @ a # t)")
      case n: None
      then have "re_findall_from p prev ((c # cs) @ a # t)
                   = re_findall_from p (Some c) (cs @ a # t)" by simp
      with "2.IH"(1) [OF None "2.prems"] l show ?thesis by simp
    next
      case (Some u)
      from match_here_append_None [OF "2.prems"(2) None Some]
      have u: "u \<in> set p" and lt: "length (c # cs) < length u"
        and pre: "take (length (c # cs)) u = c # cs" by simp_all
      have "\<forall>v\<in>set p. \<not> occurs_in v cs"
      proof (intro ballI notI)
        fix v assume v: "v \<in> set p" and o: "occurs_in v cs"
        from o have "occurs_in v (c # cs)" by simp
        then have "occurs_in v ((c # cs) @ drop (length (c # cs)) u)" by (rule occurs_in_append)
        moreover have "(c # cs) @ drop (length (c # cs)) u = u"
          using pre append_take_drop_id [of "length (c # cs)" u] by (simp only:)
        ultimately have "occurs_in v u" by (simp only:)
        with "2.prems"(1) u v have "v = u" unfolding separated_def by blast
        with o have "length u \<le> length cs" using occurs_in_length by blast
        with lt show False by simp
      qed
      then have "re_findall_from p (Some c) cs = []" by (rule re_findall_from_none)
      with l show ?thesis by simp
    qed
  next
    case (Some v)
    from match_here_Some [OF Some] have "take (length v) (c # cs) = v" by simp
    then have len: "length v \<le> length (c # cs)" by (rule take_eq_length)
    have l: "re_findall_from p prev (c # cs)
               = v # re_findall_from p (Some ((c # cs) ! (length v - 1))) (drop (length v - 1) cs)"
      using Some by simp
    from match_here_append_Some [OF "2.prems" Some]
    have "match_here p prev ((c # cs) @ a # t) = Some v" .
    then have r: "re_findall_from p prev ((c # cs) @ a # t)
               = v # re_findall_from p (Some ((c # cs @ a # t) ! (length v - 1)))
                       (drop (length v - 1) (cs @ a # t))"
      by simp
    have "length v - 1 < length (c # cs)" using len by simp
    then have "((c # cs) @ a # t) ! (length v - 1) = (c # cs) ! (length v - 1)"
      by (rule nth_append_left)
    then have i: "(c # cs @ a # t) ! (length v - 1) = (c # cs) ! (length v - 1)"
      by (simp only: append_Cons)
    have d: "drop (length v - 1) (cs @ a # t) = drop (length v - 1) cs @ a # t"
      using len by simp
    from "2.IH"(2) [OF Some "2.prems"] show ?thesis unfolding l r i d by simp
  qed
qed

lemma lower_space: "lower (c @ '' '' @ w) = lower c @ CHR '' '' # lower w"
  by (simp add: lower_def lower_char_def)

lemma space_not_word: "\<not> is_word_char CHR '' ''"
  by (simp add: is_word_char_def)

lemma match_count_append:
  assumes "separated p"
  shows "match_count p c \<le> match_count p (c @ '' '' @ w)"
  using re_findall_from_append [OF assms space_not_word, where prev = None and s = "lower c"
      and t = "lower w"]
  by (simp only: match_count_def re_findall_def lower_space)

lemma registry_separated_all:
  "list_all (\<lambda>(name, pats). list_all separated pats) threat_patterns"
  by code_simp

lemma registry_separated:
  "(name, pats) \<in> set threat_patterns \<Longrightarrow> p \<in> set pats \<Longrightarrow> separated p"
  using registry_separated_all unfolding list_all_iff by blast

lemma category_scores_append:
  assumes "(name, s) \<in> set (category_scores c)"
    and "(name, s'') \<in> set (category_scores (c @ '' '' @ w))"
  shows "s \<le> s''"
proof -
  from assms(1) obtain pats where np: "(name, pats) \<in> set threat_patterns"
    by (auto simp: category_scores_def)
  have s: "s = score_patterns (lower c) pats 0"
    using np assms(1) by (rule category_score_unique)
  have s'': "s'' = score_patterns (lower (c @ '' '' @ w)) pats 0"
    using np assms(2) by (rule category_score_unique)
  have "\<forall>p\<in>set pats. length (re_findall p (lower c))
          \<le> length (re_findall p (lower (c @ '' '' @ w)))"
  proof
    fix p assume "p \<in> set pats"
    with np have "separated p" by (rule registry_separated)
    from match_count_append [OF this, of c w]
    show "length (re_findall p (lower c)) \<le> length (re_findall p (lower (c @ '' '' @ w)))"
      by (simp only: match_count_def)
  qed
  with order_refl [of "0::rat"]
  have "score_patterns (lower c) pats 0 \<le> score_patterns (lower (c @ '' '' @ w)) pats 0"
    by (rule score_patterns_mono)
  with s s'' show ?thesis by simp
qed

lemma category_scores_counts:
  assumes "(name, pats) \<in> set threat_patterns"
    and "\<forall>p\<in>set pats. match_count p c \<le> match_count p c'"
    and "(name, s) \<in> set (category_scores c)"
    and "(name, s') \<in> set (category_scores c')"
  shows "s = weighted_sum c pats \<and> s' = weighted_sum c' pats \<and> s \<le> s'"
proof -
  have s: "s = score_patterns (lower c) pats 0"
    using assms(1,3) by (rule category_score_unique)
  have s': "s' = score_patterns (lower c') pats 0"
    using assms(1,4) by (rule category_score_unique)
  have "\<forall>p\<in>set pats. length (re_findall p (lower c)) \<le> length (re_findall p (lower c'))"
    using assms(2) by (simp add: match_count_def)
  with order_refl [of "0::rat"]
  have "score_patterns (lower c) pats 0 \<le> score_patterns (lower c') pats 0"
    by (rule score_patterns_mono)
  with s s' show ?thesis by (simp add: score_patterns_weighted)
qed

section \<open>Evaluations on concrete inputs\<close>

lemma scores_escalation_input:
  "category_scores ''you are so stupid and ugly, kill yourself!''
     = [(''cyberbullying'', 2026619832316723 / 2251799813685248), (''harassment'', 0),
        (''inappropriate_content'', 0), (''phishing'', 0)]"
  by code_simp

lemma scores_weather_input:
  "category_scores ''hello, nice weather''
     = [(''cyberbullying'', 0), (''harassment'', 0), (''inappropriate_content'', 0),
        (''phishing'', 0)]"
  by code_simp

lemma max_score_weather_input: "max_score (category_scores ''hello, nice weather'') = 0"
  by (simp add: scores_weather_input max_score_def)

lemma scores_clamped_input:
  "category_scores ''Stupid stupid STUPID stupid''
     = [(''cyberbullying'', 5404319552844595 / 4503599627370496), (''harassment'', 0),
        (''inappropriate_content'', 0), (''phishing'', 0)]"
  by code_simp

lemma max_score_clamped_input:
  "max_score (category_scores ''Stupid stupid STUPID stupid'') = 5404319552844595 / 4503599627370496"
  by (simp add: scores_clamped_input max_score_def)

lemma scores_single_input:
  "category_scores ''stupid''
     = [(''cyberbullying'', 5404319552844595 / 18014398509481984), (''harassment'', 0),
        (''inappropriate_content'', 0), (''phishing'', 0)]"
  by code_simp

lemma scores_appended_input:
  "category_scores ''stupid stupid''
     = [(''cyberbullying'', 5404319552844595 / 9007199254740992), (''harassment'', 0),
        (''inappropriate_content'', 0), (''phishing'', 0)]"
  by code_simp

lemma counts_single_escalation:
  "list_all (\<lambda>p. match_count p ''stupid''
                 \<le> match_count p ''you are so stupid and ugly, kill yourself!'')
     [[''stupid'', ''idiot'', ''loser'', ''ugly'', ''fat'', ''worthless'', ''kill yourself'',
       ''die''],
      [''hate you'', ''disgusting'', ''pathetic'', ''freak'']]"
  by code_simp

lemma analysis_escalation_input:
  "analyze_threat_content ''you are so stupid and ugly, kill yourself!'' =
     \<lparr>threat_detected = True, threat_type = ''cyberbullying'', threat_level = ''critical'',
      confidence_score = 2026619832316723 / 2251799813685248,
      explanation = ''Detected potential cyberbullying with critical severity level'',
      recommended_actions =
        [''Document this content as evidence'', ''Report to platform administrators'',
         ''Consider blocking the sender'', ''Contact emergency services if feeling unsafe'',
         ''Inform trusted contacts about the situation'']\<rparr>"
  by code_simp

lemma analysis_weather_input:
  "analyze_threat_content ''hello, nice weather'' =
     \<lparr>threat_detected = False, threat_type = ''other'', threat_level = ''low'',
      confidence_score = 0,
      explanation = ''Detected potential other with low severity level'',
      recommended_actions = []\<rparr>"
  by code_simp

lemma analysis_high_input:
  "analyze_threat_content ''Click here, it is URGENT'' =
     \<lparr>threat_detected = True, threat_type = ''phishing'', threat_level = ''high'',
      confidence_score = 5404319552844595 / 9007199254740992,
      explanation = ''Detected potential phishing with high severity level'',
      recommended_actions =
        [''Document this content as evidence'', ''Report to platform administrators'',
         ''Consider blocking the sender'', ''Contact emergency services if feeling unsafe'',
         ''Inform trusted contacts about the situation'']\<rparr>"
  by code_simp

lemma analysis_medium_input:
  "analyze_threat_content ''I am watching you'' =
     \<lparr>threat_detected = True, threat_type = ''harassment'', threat_level = ''medium'',
      confidence_score = 5404319552844595 / 18014398509481984,
      explanation = ''Detected potential harassment with medium severity level'',
      recommended_actions = []\<rparr>"
  by code_simp

text \<open>
  Equal numbers of matches do not give equal raw scores. In the following content the
  first pattern of cyberbullying matches six times, and the two patterns of harassment
  match once and five times. In float arithmetic \<^verbatim>\<open>6 * 0.3\<close> is
  \<^verbatim>\<open>1.7999999999999998\<close> and \<^verbatim>\<open>1 * 0.3 + 5 * 0.3\<close> is \<^verbatim>\<open>1.8\<close>, so harassment has the
  strictly greater raw score and is reported, although cyberbullying comes first in the
  enumeration and has as many matches.
\<close>

lemma counts_mixed_input:
  "map (\<lambda>(name, pats). (name, map (\<lambda>p. match_count p
          ''die die die die die die find you obsessed obsessed obsessed obsessed obsessed'') pats))
     threat_patterns
     = [(''cyberbullying'', [6, 0]), (''harassment'', [1, 5]), (''inappropriate_content'', [0, 0]),
        (''phishing'', [0, 0])]"
  by code_simp

lemma scores_mixed_input:
  "category_scores
        ''die die die die die die find you obsessed obsessed obsessed obsessed obsessed''
     = [(''cyberbullying'', 2026619832316723 / 1125899906842624),
        (''harassment'', 8106479329266893 / 4503599627370496),
        (''inappropriate_content'', 0), (''phishing'', 0)]"
  by code_simp

lemma winner_mixed_input:
  "threat_type (analyze_threat_content
        ''die die die die die die find you obsessed obsessed obsessed obsessed obsessed'')
     = ''harassment''"
proof -
  let ?c = "''die die die die die die find you obsessed obsessed obsessed obsessed obsessed''"
  have "(''harassment'', 8106479329266893 / 4503599627370496) \<in> set (category_scores ?c)
        \<and> (\<forall>(name', s')\<in>set (category_scores ?c).
              name' \<noteq> ''harassment'' \<longrightarrow> s' < 8106479329266893 / 4503599627370496)"
    by (simp add: scores_mixed_input)
  with winner_strict [of ?c] show ?thesis by blast
qed

text \<open>
  Inserting the text of an alternative is not the same as adding a match: written directly
  behind a match, it removes the word boundary and with it the match.
\<close>

lemma scores_adjacent_input:
  "category_scores ''stupidstupid''
     = [(''cyberbullying'', 0), (''harassment'', 0), (''inappropriate_content'', 0),
        (''phishing'', 0)]"
  by code_simp

text \<open>
  Neither is inserting a separate occurrence of an alternative: between the two words of
  \<^verbatim>\<open>hate you\<close> one more \<^verbatim>\<open>die\<close> adds a match of the first pattern of cyberbullying and
  removes the match of the second. The counts \<open>5\<close> and \<open>1\<close> become \<open>6\<close> and \<open>0\<close>, and
  the raw score falls from \<^verbatim>\<open>5 * 0.3 + 1 * 0.3 = 1.8\<close> to
  \<^verbatim>\<open>6 * 0.3 + 0 * 0.3 = 1.7999999999999998\<close>.
\<close>

lemma counts_before_insertion:
  "match_count [''stupid'', ''idiot'', ''loser'', ''ugly'', ''fat'', ''worthless'', ''kill yourself'',
                ''die''] ''die die die die die hate you'' = 5"
  "match_count [''hate you'', ''disgusting'', ''pathetic'', ''freak'']
     ''die die die die die hate you'' = 1"
  by code_simp+

lemma counts_after_insertion:
  "match_count [''stupid'', ''idiot'', ''loser'', ''ugly'', ''fat'', ''worthless'', ''kill yourself'',
                ''die''] ''die die die die die hate die you'' = 6"
  "match_count [''hate you'', ''disgusting'', ''pathetic'', ''freak'']
     ''die die die die die hate die you'' = 0"
  by code_simp+

lemma scores_before_insertion:
  "category_scores ''die die die die die hate you''
     = [(''cyberbullying'', 8106479329266893 / 4503599627370496), (''harassment'', 0),
        (''inappropriate_content'', 0), (''phishing'', 0)]"
  by code_simp

lemma scores_after_insertion:
  "category_scores ''die die die die die hate die you''
     = [(''cyberbullying'', 2026619832316723 / 1125899906842624), (''harassment'', 0),
        (''inappropriate_content'', 0), (''phishing'', 0)]"
  by code_simp

section \<open>The claims\<close>

text \<open>
  C1. For every content string the raw score of a category is the sum, in float
  arithmetic and in the order of the patterns, of the number of matches of each pattern in
  the lower-cased content times the weight \<^verbatim>\<open>0.3\<close>; the categories are enumerated in
  the order cyberbullying, harassment, inappropriate_content, phishing. The maximum raw
  score is 0 exactly when no pattern matches; then \<^verbatim>\<open>threat_type\<close> is \<^verbatim>\<open>other\<close> and
  \<^verbatim>\<open>confidence_score\<close> is 0. Otherwise \<^verbatim>\<open>threat_type\<close> is the first category of the
  enumeration whose raw score is the maximum, all categories before it having a smaller
  score; in particular a category whose raw score is strictly greater than every other
  one is the \<^verbatim>\<open>threat_type\<close>.
\<close>

theorem scorer_winner:
  "category_scores c = map (\<lambda>(name, pats). (name, weighted_sum c pats)) threat_patterns
   \<and> map fst (category_scores c)
       = [''cyberbullying'', ''harassment'', ''inappropriate_content'', ''phishing'']
   \<and> ((max_score (category_scores c) = 0)
        = (\<forall>(name, pats)\<in>set threat_patterns. \<forall>p\<in>set pats. match_count p c = 0))
   \<and> (max_score (category_scores c) = 0 \<longrightarrow>
        threat_type (analyze_threat_content c) = ''other''
        \<and> confidence_score (analyze_threat_content c) = 0)
   \<and> (max_score (category_scores c) \<noteq> 0 \<longrightarrow>
        (\<exists>i<length (category_scores c).
            category_scores c ! i
              = (threat_type (analyze_threat_content c), max_score (category_scores c))
            \<and> (\<forall>j<i. snd (category_scores c ! j) < max_score (category_scores c))))
   \<and> (\<forall>name s. (name, s) \<in> set (category_scores c)
        \<and> (\<forall>(name', s')\<in>set (category_scores c). name' \<noteq> name \<longrightarrow> s' < s)
        \<longrightarrow> threat_type (analyze_threat_content c) = name)"
  by (intro conjI category_scores_weighted category_names no_match_iff winner_zero winner_first
      winner_strict)

theorem scorer_winner_witness:
  "category_scores ''you are so stupid and ugly, kill yourself!''
     = [(''cyberbullying'', 2026619832316723 / 2251799813685248), (''harassment'', 0),
        (''inappropriate_content'', 0), (''phishing'', 0)]
   \<and> threat_type (analyze_threat_content ''you are so stupid and ugly, kill yourself!'')
       = ''cyberbullying''
   \<and> max_score (category_scores ''hello, nice weather'') = 0
   \<and> threat_type (analyze_threat_content ''hello, nice weather'') = ''other''
   \<and> confidence_score (analyze_threat_content ''hello, nice weather'') = 0"
proof -
  let ?e = "''you are so stupid and ugly, kill yourself!''"
  let ?w = "''hello, nice weather''"
  have "(''cyberbullying'', 2026619832316723 / 2251799813685248) \<in> set (category_scores ?e)
        \<and> (\<forall>(name', s')\<in>set (category_scores ?e).
              name' \<noteq> ''cyberbullying'' \<longrightarrow> s' < 2026619832316723 / 2251799813685248)"
    by (simp add: scores_escalation_input)
  with scorer_winner [of ?e] have "threat_type (analyze_threat_content ?e) = ''cyberbullying''"
    by blast
  moreover from scorer_winner [of ?w] max_score_weather_input
  have "threat_type (analyze_threat_content ?w) = ''other''
        \<and> confidence_score (analyze_threat_content ?w) = 0" by blast
  ultimately show ?thesis using scores_escalation_input max_score_weather_input by blast
qed

text \<open>
  C2. The level and the detection flag are threshold functions of \<^verbatim>\<open>confidence_score\<close>:
  at least \<^verbatim>\<open>0.8\<close> is critical, from \<^verbatim>\<open>0.6\<close> below \<^verbatim>\<open>0.8\<close> is high, from \<^verbatim>\<open>0.3\<close> below
  \<^verbatim>\<open>0.6\<close> is medium, below \<^verbatim>\<open>0.3\<close> is low, and \<^verbatim>\<open>threat_detected\<close> holds exactly when
  the confidence is strictly above \<^verbatim>\<open>0.2\<close>. The source tests the unclamped
  \<^verbatim>\<open>max_confidence\<close>; since every threshold is below \<^verbatim>\<open>1.0\<close>, the same functions
  applied to the clamped score give the same result. At the boundaries: \<^verbatim>\<open>0.3\<close> is
  medium, \<^verbatim>\<open>0.6\<close> is high, \<^verbatim>\<open>0.8\<close> is critical, \<^verbatim>\<open>0.2\<close> is not detected and
  \<^verbatim>\<open>0.21\<close> is detected.
\<close>

theorem severity_thresholds:
  "(float_lit 8 10 \<le> confidence_score (analyze_threat_content c)
      \<longrightarrow> threat_level (analyze_threat_content c) = ''critical'')
   \<and> (float_lit 6 10 \<le> confidence_score (analyze_threat_content c)
        \<and> confidence_score (analyze_threat_content c) < float_lit 8 10
      \<longrightarrow> threat_level (analyze_threat_content c) = ''high'')
   \<and> (float_lit 3 10 \<le> confidence_score (analyze_threat_content c)
        \<and> confidence_score (analyze_threat_content c) < float_lit 6 10
      \<longrightarrow> threat_level (analyze_threat_content c) = ''medium'')
   \<and> (confidence_score (analyze_threat_content c) < float_lit 3 10
      \<longrightarrow> threat_level (analyze_threat_content c) = ''low'')
   \<and> threat_detected (analyze_threat_content c)
       = (float_lit 2 10 < confidence_score (analyze_threat_content c))
   \<and> threat_level (analyze_threat_content c) = level_of (confidence_score (analyze_threat_content c))
   \<and> threat_detected (analyze_threat_content c)
       = detected_of (confidence_score (analyze_threat_content c))
   \<and> level_of (float_lit 3 10) = ''medium''
   \<and> level_of (float_lit 6 10) = ''high''
   \<and> level_of (float_lit 8 10) = ''critical''
   \<and> \<not> detected_of (float_lit 2 10)
   \<and> detected_of (float_lit 21 100)"
proof -
  let ?s = "confidence_score (analyze_threat_content c)"
  have l: "threat_level (analyze_threat_content c) = level_of ?s"
    by (simp add: analyze_fields level_of_min)
  have d: "threat_detected (analyze_threat_content c) = detected_of ?s"
    by (simp add: analyze_fields detected_of_min)
  have "float_lit 8 10 \<le> ?s \<longrightarrow> level_of ?s = ''critical''"
    "float_lit 6 10 \<le> ?s \<and> ?s < float_lit 8 10 \<longrightarrow> level_of ?s = ''high''"
    "float_lit 3 10 \<le> ?s \<and> ?s < float_lit 6 10 \<longrightarrow> level_of ?s = ''medium''"
    "?s < float_lit 3 10 \<longrightarrow> level_of ?s = ''low''"
    by (simp_all add: level_of_cases)
  moreover have "detected_of ?s = (float_lit 2 10 < ?s)" by (simp add: detected_of_def)
  moreover have "level_of (float_lit 3 10) = ''medium''" "level_of (float_lit 6 10) = ''high''"
    "level_of (float_lit 8 10) = ''critical''"
    by (simp_all add: level_of_def float_lits)
  moreover have "\<not> detected_of (float_lit 2 10)" "detected_of (float_lit 21 100)"
    by (simp_all add: detected_of_def float_lits)
  ultimately show ?thesis unfolding l d by (intro conjI) simp_all
qed

theorem severity_thresholds_witness:
  "threat_level (analyze_threat_content ''you are so stupid and ugly, kill yourself!'') = ''critical''
   \<and> threat_level (analyze_threat_content ''Click here, it is URGENT'') = ''high''
   \<and> threat_level (analyze_threat_content ''I am watching you'') = ''medium''
   \<and> threat_level (analyze_threat_content ''hello, nice weather'') = ''low''
   \<and> float_lit 8 10 \<le> confidence_score (analyze_threat_content ''you are so stupid and ugly, kill yourself!'')
   \<and> float_lit 6 10 \<le> confidence_score (analyze_threat_content ''Click here, it is URGENT'')
   \<and> confidence_score (analyze_threat_content ''Click here, it is URGENT'') < float_lit 8 10
   \<and> float_lit 3 10 \<le> confidence_score (analyze_threat_content ''I am watching you'')
   \<and> confidence_score (analyze_threat_content ''I am watching you'') < float_lit 6 10
   \<and> confidence_score (analyze_threat_content ''hello, nice weather'') < float_lit 3 10"
proof -
  have c: "float_lit 8 10 \<le> confidence_score (analyze_threat_content ''you are so stupid and ugly, kill yourself!'')"
    by (simp add: analysis_escalation_input float_lits)
  have h: "float_lit 6 10 \<le> confidence_score (analyze_threat_content ''Click here, it is URGENT'')
           \<and> confidence_score (analyze_threat_content ''Click here, it is URGENT'') < float_lit 8 10"
    by (simp add: analysis_high_input float_lits)
  have m: "float_lit 3 10 \<le> confidence_score (analyze_threat_content ''I am watching you'')
           \<and> confidence_score (analyze_threat_content ''I am watching you'') < float_lit 6 10"
    by (simp add: analysis_medium_input float_lits)
  have l: "confidence_score (analyze_threat_content ''hello, nice weather'') < float_lit 3 10"
    by (simp add: analysis_weather_input float_lits)
  from c severity_thresholds [of "''you are so stupid and ugly, kill yourself!''"]
  have "threat_level (analyze_threat_content ''you are so stupid and ugly, kill yourself!'') = ''critical''"
    by blast
  moreover from h severity_thresholds [of "''Click here, it is URGENT''"]
  have "threat_level (analyze_threat_content ''Click here, it is URGENT'') = ''high''" by blast
  moreover from m severity_thresholds [of "''I am watching you''"]
  have "threat_level (analyze_threat_content ''I am watching you'') = ''medium''" by blast
  moreover from l severity_thresholds [of "''hello, nice weather''"]
  have "threat_level (analyze_threat_content ''hello, nice weather'') = ''low''" by blast
  ultimately show ?thesis using c h m l by (intro conjI) simp_all
qed

text \<open>
  C3. For every content string the list of recommended actions is, when the confidence
  is above \<^verbatim>\<open>0.5\<close>, the three base recommendations in their fixed order, followed by
  the two further ones exactly when the level is high or critical; and it is empty when
  the confidence is at most \<^verbatim>\<open>0.5\<close>. The list is this list itself, neither reordered
  nor deduplicated.
\<close>

theorem recommendations_exact:
  "recommended_actions (analyze_threat_content c)
     = (if float_lit 5 10 < confidence_score (analyze_threat_content c)
        then [''Document this content as evidence'', ''Report to platform administrators'',
              ''Consider blocking the sender'']
             @ (if threat_level (analyze_threat_content c) = ''high''
                   \<or> threat_level (analyze_threat_content c) = ''critical''
                then [''Contact emergency services if feeling unsafe'',
                      ''Inform trusted contacts about the situation'']
                else [])
        else [])"
proof -
  let ?M = "max_score (category_scores c)"
  have "float_lit 5 10 < min ?M (float_lit 10 10) \<longleftrightarrow> float_lit 5 10 < ?M"
    by (simp add: float_lits min_def)
  then show ?thesis by (simp add: analyze_fields recommendations_of_def)
qed

theorem recommendations_exact_witness:
  "recommended_actions (analyze_threat_content ''you are so stupid and ugly, kill yourself!'')
     = [''Document this content as evidence'', ''Report to platform administrators'',
        ''Consider blocking the sender'', ''Contact emergency services if feeling unsafe'',
        ''Inform trusted contacts about the situation'']
   \<and> recommended_actions (analyze_threat_content ''I am watching you'') = []"
proof -
  have "float_lit 5 10 < confidence_score (analyze_threat_content ''you are so stupid and ugly, kill yourself!'')"
    "threat_level (analyze_threat_content ''you are so stupid and ugly, kill yourself!'') = ''critical''"
    by (simp_all add: analysis_escalation_input float_lits)
  with recommendations_exact [of "''you are so stupid and ugly, kill yourself!''"]
  have "recommended_actions (analyze_threat_content ''you are so stupid and ugly, kill yourself!'')
     = [''Document this content as evidence'', ''Report to platform administrators'',
        ''Consider blocking the sender'', ''Contact emergency services if feeling unsafe'',
        ''Inform trusted contacts about the situation'']" by simp
  moreover have "\<not> float_lit 5 10 < confidence_score (analyze_threat_content ''I am watching you'')"
    by (simp add: analysis_medium_input float_lits)
  with recommendations_exact [of "''I am watching you''"]
  have "recommended_actions (analyze_threat_content ''I am watching you'') = []" by simp
  ultimately show ?thesis by (intro conjI)
qed

text \<open>
  C4. Given an analysis result and the stored detection (the data store returned a first
  row, which has an id), a notification is produced exactly when \<^verbatim>\<open>threat_detected\<close> holds
  and the level is high or critical. Its priority is \<^verbatim>\<open>urgent\<close> for critical and
  \<^verbatim>\<open>high\<close> for high, and it refers to the id of the stored detection. No notification
  is produced for the levels low and medium.
\<close>

theorem escalation_decision:
  assumes "data = row # rest" and "row ''id'' = Some threat_id"
  shows "((\<exists>n. threat_notification ar current_user_id now data = Inr (Some n))
            = (threat_detected ar \<and> (threat_level ar = ''high'' \<or> threat_level ar = ''critical'')))
         \<and> (\<forall>n. threat_notification ar current_user_id now data = Inr (Some n) \<longrightarrow>
               priority n = (if threat_level ar = ''critical'' then ''urgent'' else ''high'')
               \<and> notification_type n = ''threat_alert''
               \<and> metadata n = [(''threat_id'', threat_id)])
         \<and> (threat_detected ar \<and> threat_level ar = ''critical'' \<longrightarrow>
               (\<exists>n. threat_notification ar current_user_id now data = Inr (Some n)
                    \<and> priority n = ''urgent''))
         \<and> (threat_detected ar \<and> threat_level ar = ''high'' \<longrightarrow>
               (\<exists>n. threat_notification ar current_user_id now data = Inr (Some n)
                    \<and> priority n = ''high''))
         \<and> (threat_level ar = ''low'' \<or> threat_level ar = ''medium'' \<longrightarrow>
               threat_notification ar current_user_id now data = Inr None)
         \<and> (\<not> (threat_detected ar \<and> (threat_level ar = ''high'' \<or> threat_level ar = ''critical''))
               \<longrightarrow> threat_notification ar current_user_id now data = Inr None)"
  using assms by (auto simp: threat_notification_def)

theorem escalation_decision_witness:
  "(\<exists>n. threat_notification
          \<lparr>threat_detected = True, threat_type = ''phishing'', threat_level = ''critical'',
           confidence_score = 1, explanation = '''', recommended_actions = []\<rparr>
          ''user-1'' ''2024-01-01T00:00:00'' [[''id'' \<mapsto> ''42'']] = Inr (Some n)
        \<and> priority n = ''urgent'')
   \<and> threat_notification
          \<lparr>threat_detected = True, threat_type = ''phishing'', threat_level = ''medium'',
           confidence_score = 1 / 2, explanation = '''', recommended_actions = []\<rparr>
          ''user-1'' ''2024-01-01T00:00:00'' [[''id'' \<mapsto> ''42'']] = Inr None"
proof -
  let ?row = "[''id'' \<mapsto> ''42''] :: row"
  have r: "?row ''id'' = Some ''42''" by simp
  have d: "[?row] = ?row # []" by simp
  let ?a = "\<lparr>threat_detected = True, threat_type = ''phishing'', threat_level = ''critical'',
           confidence_score = 1, explanation = '''', recommended_actions = []\<rparr>"
  let ?b = "\<lparr>threat_detected = True, threat_type = ''phishing'', threat_level = ''medium'',
           confidence_score = 1 / 2, explanation = '''', recommended_actions = []\<rparr>"
  have "threat_detected ?a \<and> threat_level ?a = ''critical''" by simp
  with escalation_decision [OF d r, of ?a "''user-1''" "''2024-01-01T00:00:00''"]
  have 1: "\<exists>n. threat_notification ?a ''user-1'' ''2024-01-01T00:00:00'' [?row] = Inr (Some n)
        \<and> priority n = ''urgent''" by blast
  have "threat_level ?b = ''low'' \<or> threat_level ?b = ''medium''" by simp
  with escalation_decision [OF d r, of ?b "''user-1''" "''2024-01-01T00:00:00''"]
  have 2: "threat_notification ?b ''user-1'' ''2024-01-01T00:00:00'' [?row] = Inr None" by blast
  from 1 2 show ?thesis by (intro conjI)
qed

text \<open>
  C5. For every content string \<^verbatim>\<open>confidence_score\<close> is the minimum of the maximum raw
  score and \<^verbatim>\<open>1.0\<close>, and the maximum raw score, when it is not 0, is the raw score of
  the category reported as \<^verbatim>\<open>threat_type\<close>. So the confidence lies between 0 and 1, and
  it is exactly 1 when the raw score of the winner exceeds 1 (four matches give
  \<^verbatim>\<open>1.2\<close>).
\<close>

theorem confidence_clamped:
  "confidence_score (analyze_threat_content c)
     = min (max_score (category_scores c)) (float_lit 10 10)
   \<and> float_lit 10 10 = 1
   \<and> (max_score (category_scores c) \<noteq> 0 \<longrightarrow>
        (threat_type (analyze_threat_content c), max_score (category_scores c))
          \<in> set (category_scores c))
   \<and> 0 \<le> confidence_score (analyze_threat_content c)
   \<and> confidence_score (analyze_threat_content c) \<le> 1
   \<and> (1 < max_score (category_scores c) \<longrightarrow> confidence_score (analyze_threat_content c) = 1)"
  using max_score_nonneg [of "category_scores c"] winner_member [of c]
  by (simp add: analyze_fields lit_1_0)

theorem confidence_clamped_witness:
  "max_score (category_scores ''Stupid stupid STUPID stupid'') = 5404319552844595 / 4503599627370496
   \<and> threat_type (analyze_threat_content ''Stupid stupid STUPID stupid'') = ''cyberbullying''
   \<and> confidence_score (analyze_threat_content ''Stupid stupid STUPID stupid'') = 1"
proof -
  let ?c = "''Stupid stupid STUPID stupid''"
  have m: "max_score (category_scores ?c) = 5404319552844595 / 4503599627370496"
    by (rule max_score_clamped_input)
  have "1 < max_score (category_scores ?c)" "max_score (category_scores ?c) \<noteq> 0"
    by (simp_all add: m)
  with confidence_clamped [of ?c] have one: "confidence_score (analyze_threat_content ?c) = 1"
    and mem: "(threat_type (analyze_threat_content ?c), max_score (category_scores ?c))
          \<in> set (category_scores ?c)" by blast+
  from mem have "(threat_type (analyze_threat_content ?c), 5404319552844595 / 4503599627370496)
          \<in> set (category_scores ?c)" by (simp only: m)
  then have "threat_type (analyze_threat_content ?c) = ''cyberbullying''"
    by (simp add: scores_clamped_input)
  with one m show ?thesis by (intro conjI)
qed

text \<open>
  C6, as amended. For every category of the registry and all content strings \<open>c\<close> and
  \<open>c'\<close>: when every pattern of the category has at least as many matches in \<open>c'\<close> as in
  \<open>c\<close>, the raw score of the category for \<open>c'\<close> is at least its raw score for \<open>c\<close>
  (rounding included). In particular, appending a space and any text \<open>w\<close> to the content,
  for instance further occurrences of a matched pattern, loses no match of any pattern of
  the registry and decreases no raw score. Added inside the content, an occurrence can
  remove another match: see the counterexample below.
\<close>

theorem raw_score_monotone:
  "((name, pats) \<in> set threat_patterns
      \<and> (\<forall>p\<in>set pats. match_count p c \<le> match_count p c')
      \<and> (name, s) \<in> set (category_scores c)
      \<and> (name, s') \<in> set (category_scores c')
     \<longrightarrow> s = weighted_sum c pats \<and> s' = weighted_sum c' pats \<and> s \<le> s')
   \<and> ((name, pats) \<in> set threat_patterns \<and> p \<in> set pats
     \<longrightarrow> match_count p c \<le> match_count p (c @ '' '' @ w))
   \<and> ((name, s) \<in> set (category_scores c)
      \<and> (name, s'') \<in> set (category_scores (c @ '' '' @ w))
     \<longrightarrow> s \<le> s'')"
proof (intro conjI impI)
  assume "(name, pats) \<in> set threat_patterns
      \<and> (\<forall>p\<in>set pats. match_count p c \<le> match_count p c')
      \<and> (name, s) \<in> set (category_scores c)
      \<and> (name, s') \<in> set (category_scores c')"
  then have "s = weighted_sum c pats \<and> s' = weighted_sum c' pats \<and> s \<le> s'"
    using category_scores_counts [of name pats c c' s s'] by blast
  then show "s = weighted_sum c pats" "s' = weighted_sum c' pats" "s \<le> s'" by simp_all
next
  assume "(name, pats) \<in> set threat_patterns \<and> p \<in> set pats"
  then have "separated p" using registry_separated by blast
  then show "match_count p c \<le> match_count p (c @ '' '' @ w)" by (rule match_count_append)
next
  assume "(name, s) \<in> set (category_scores c)
      \<and> (name, s'') \<in> set (category_scores (c @ '' '' @ w))"
  then show "s \<le> s''" using category_scores_append by blast
qed

theorem raw_score_monotone_witness:
  "(''cyberbullying'', 5404319552844595 / 18014398509481984) \<in> set (category_scores ''stupid'')
   \<and> (''cyberbullying'', 2026619832316723 / 2251799813685248)
        \<in> set (category_scores ''you are so stupid and ugly, kill yourself!'')
   \<and> (5404319552844595 / 18014398509481984 :: rat) \<le> 2026619832316723 / 2251799813685248
   \<and> (''cyberbullying'', 5404319552844595 / 9007199254740992)
        \<in> set (category_scores (''stupid'' @ '' '' @ ''stupid''))
   \<and> (5404319552844595 / 18014398509481984 :: rat) \<le> 5404319552844595 / 9007199254740992
   \<and> match_count [''stupid'', ''idiot'', ''loser'', ''ugly'', ''fat'', ''worthless'',
                    ''kill yourself'', ''die''] ''stupid''
       \<le> match_count [''stupid'', ''idiot'', ''loser'', ''ugly'', ''fat'', ''worthless'',
                       ''kill yourself'', ''die''] (''stupid'' @ '' '' @ ''stupid'')"
proof -
  let ?p = "[''stupid'', ''idiot'', ''loser'', ''ugly'', ''fat'', ''worthless'',
             ''kill yourself'', ''die'']"
  let ?pats = "[?p, [''hate you'', ''disgusting'', ''pathetic'', ''freak'']]"
  let ?e = "''you are so stupid and ugly, kill yourself!''"
  let ?s1 = "5404319552844595 / 18014398509481984 :: rat"
  let ?s2 = "2026619832316723 / 2251799813685248 :: rat"
  let ?s3 = "5404319552844595 / 9007199254740992 :: rat"
  have a: "(''cyberbullying'', ?pats) \<in> set threat_patterns" by (simp add: threat_patterns_def)
  have b: "\<forall>p\<in>set ?pats. match_count p ''stupid'' \<le> match_count p ?e"
    using counts_single_escalation by (simp only: list_all_iff)
  have c: "(''cyberbullying'', ?s1) \<in> set (category_scores ''stupid'')"
    by (simp add: scores_single_input)
  have d: "(''cyberbullying'', ?s2) \<in> set (category_scores ?e)"
    by (simp add: scores_escalation_input)
  have e: "(''cyberbullying'', ?s3) \<in> set (category_scores (''stupid'' @ '' '' @ ''stupid''))"
    by (simp add: scores_appended_input)
  have f: "?p \<in> set ?pats" by simp
  note t = raw_score_monotone [where name = "''cyberbullying''" and pats = ?pats
      and c = "''stupid''" and c' = ?e and s = ?s1 and s' = ?s2 and p = ?p
      and w = "''stupid''" and s'' = ?s3]
  from t a b c d have 1: "?s1 \<le> ?s2" by blast
  from t c e have 2: "?s1 \<le> ?s3" by blast
  from t a f have 3: "match_count ?p ''stupid'' \<le> match_count ?p (''stupid'' @ '' '' @ ''stupid'')"
    by blast
  from c d 1 e 2 3 show ?thesis by (intro conjI)
qed

text \<open>
  C6, as stated, does not hold. The content \<^verbatim>\<open>die die die die die hate you\<close> matches the
  first pattern of cyberbullying five times and the second once. With one more occurrence
  of \<^verbatim>\<open>die\<close>, in \<^verbatim>\<open>die die die die die hate die you\<close>, the first pattern matches six
  times and the second no longer, and the raw score of cyberbullying is strictly smaller
  than before.
\<close>

theorem raw_score_monotone_counterexample:
  "match_count [''stupid'', ''idiot'', ''loser'', ''ugly'', ''fat'', ''worthless'', ''kill yourself'',
                ''die''] ''die die die die die hate you'' = 5
   \<and> match_count [''stupid'', ''idiot'', ''loser'', ''ugly'', ''fat'', ''worthless'',
                    ''kill yourself'', ''die''] ''die die die die die hate die you'' = 6
   \<and> match_count [''hate you'', ''disgusting'', ''pathetic'', ''freak'']
        ''die die die die die hate you'' = 1
   \<and> match_count [''hate you'', ''disgusting'', ''pathetic'', ''freak'']
        ''die die die die die hate die you'' = 0
   \<and> category_scores ''die die die die die hate you''
       = [(''cyberbullying'', 8106479329266893 / 4503599627370496), (''harassment'', 0),
          (''inappropriate_content'', 0), (''phishing'', 0)]
   \<and> category_scores ''die die die die die hate die you''
       = [(''cyberbullying'', 2026619832316723 / 1125899906842624), (''harassment'', 0),
          (''inappropriate_content'', 0), (''phishing'', 0)]
   \<and> (2026619832316723 / 1125899906842624 :: rat) < 8106479329266893 / 4503599627370496"
proof -
  have "(2026619832316723 / 1125899906842624 :: rat) < 8106479329266893 / 4503599627370496"
    by simp
  with counts_before_insertion counts_after_insertion scores_before_insertion
    scores_after_insertion
  show ?thesis by (intro conjI)
qed

text \<open>
  C9. For the content \<^verbatim>\<open>you are so stupid and ugly, kill yourself!\<close> the analysis returns
  the type cyberbullying, a confidence of at least \<^verbatim>\<open>0.6\<close>, a level that is high or
  critical, and recommended actions that contain
  \<^verbatim>\<open>Contact emergency services if feeling unsafe\<close>; and for every stored detection with
  an id the route produces a notification whose priority is \<^verbatim>\<open>high\<close> or \<^verbatim>\<open>urgent\<close>.
\<close>

theorem escalation_scenario:
  "threat_type (analyze_threat_content ''you are so stupid and ugly, kill yourself!'')
     = ''cyberbullying''
   \<and> float_lit 6 10
       \<le> confidence_score (analyze_threat_content ''you are so stupid and ugly, kill yourself!'')
   \<and> (threat_level (analyze_threat_content ''you are so stupid and ugly, kill yourself!'') = ''high''
      \<or> threat_level (analyze_threat_content ''you are so stupid and ugly, kill yourself!'')
          = ''critical'')
   \<and> ''Contact emergency services if feeling unsafe''
       \<in> set (recommended_actions
                (analyze_threat_content ''you are so stupid and ugly, kill yourself!''))
   \<and> (\<forall>current_user_id now row rest threat_id. row ''id'' = Some threat_id \<longrightarrow>
         (\<exists>n. threat_notification
                 (analyze_threat_content ''you are so stupid and ugly, kill yourself!'')
                 current_user_id now (row # rest) = Inr (Some n)
              \<and> (priority n = ''high'' \<or> priority n = ''urgent'')
              \<and> analyze_threat ''you are so stupid and ugly, kill yourself!'' current_user_id now
                    (Some (row # rest)) True
                  = Inr (analyze_threat_content ''you are so stupid and ugly, kill yourself!'',
                         Some n)))"
  by (simp add: analysis_escalation_input float_lits threat_notification_def analyze_threat_def)

theorem escalation_scenario_witness:
  "\<exists>n. threat_notification
          (analyze_threat_content ''you are so stupid and ugly, kill yourself!'')
          ''user-1'' ''2024-01-01T00:00:00'' [[''id'' \<mapsto> ''42'']] = Inr (Some n)
       \<and> (priority n = ''high'' \<or> priority n = ''urgent'')
       \<and> analyze_threat ''you are so stupid and ugly, kill yourself!'' ''user-1''
             ''2024-01-01T00:00:00'' (Some [[''id'' \<mapsto> ''42'']]) True
           = Inr (analyze_threat_content ''you are so stupid and ugly, kill yourself!'', Some n)"
proof -
  have r: "([''id'' \<mapsto> ''42''] :: row) ''id'' = Some ''42''" by simp
  from escalation_scenario r show ?thesis by blast
qed

text \<open>
  C10. For every content string: when the level of the result is high or critical, the
  result has \<^verbatim>\<open>threat_detected\<close> set, since the confidence is then at least
  \<^verbatim>\<open>0.6\<close>, above the detection threshold \<^verbatim>\<open>0.2\<close>. So the test of \<^verbatim>\<open>threat_detected\<close>
  in the escalation condition is redundant on the results of the analysis: the decision
  is the same with the flag forced to true.
\<close>

theorem escalation_level_implies_detected:
  "(threat_level (analyze_threat_content c) = ''high''
      \<or> threat_level (analyze_threat_content c) = ''critical''
    \<longrightarrow> threat_detected (analyze_threat_content c)
        \<and> float_lit 6 10 \<le> confidence_score (analyze_threat_content c))
   \<and> float_lit 2 10 < float_lit 6 10
   \<and> threat_notification (analyze_threat_content c) current_user_id now data
       = threat_notification ((analyze_threat_content c)\<lparr>threat_detected := True\<rparr>)
           current_user_id now data"
proof -
  let ?r = "analyze_threat_content c"
  let ?M = "max_score (category_scores c)"
  have a: "threat_level ?r = ''high'' \<or> threat_level ?r = ''critical'' \<longrightarrow> float_lit 6 10 \<le> ?M"
    by (auto simp: analyze_fields level_of_cases float_lits)
  then have b: "threat_level ?r = ''high'' \<or> threat_level ?r = ''critical'' \<longrightarrow> threat_detected ?r"
    by (auto simp: analyze_fields detected_of_def float_lits)
  have c: "threat_level ?r = ''high'' \<or> threat_level ?r = ''critical''
             \<longrightarrow> float_lit 6 10 \<le> confidence_score ?r"
    using a by (auto simp: analyze_fields(2) float_lits)
  have d: "threat_notification ?r current_user_id now data
       = threat_notification (?r\<lparr>threat_detected := True\<rparr>) current_user_id now data"
    using b by (auto simp: threat_notification_def split: option.splits)
  have "float_lit 2 10 < float_lit 6 10" by (simp add: float_lits)
  with b c d show ?thesis by blast
qed

theorem escalation_level_implies_detected_witness:
  "threat_level (analyze_threat_content ''Click here, it is URGENT'') = ''high''
   \<and> threat_detected (analyze_threat_content ''Click here, it is URGENT'')
   \<and> float_lit 6 10 \<le> confidence_score (analyze_threat_content ''Click here, it is URGENT'')"
proof -
  have h: "threat_level (analyze_threat_content ''Click here, it is URGENT'') = ''high''"
    by (simp add: analysis_high_input)
  with escalation_level_implies_detected [of "''Click here, it is URGENT''"] show ?thesis by blast
qed

end
